theory Spec2Isabelle
  imports Main "HOL-Library.AList"
begin

section \<open>ContextPruner: \<open>pruneMessages\<close>\<close>

text \<open>
  Source: \<^verbatim>\<open>src/unnamed/part_000\<close>, function \<^verbatim>\<open>pruneMessages\<close>.

  \<^verbatim>\<open>pruneMessages(messages, maxChars)\<close> bounds a conversation history. A message is
  an opaque value; \<open>sz m\<close> stands for \<^verbatim>\<open>JSON.stringify(m).length\<close>, a natural number.
  The budget \<open>maxChars\<close> is a JavaScript number; the only caller passes 20000, and all
  the sums are integers, so \<open>int\<close> is used.

  The loop \<^verbatim>\<open>for (i = middleMessages.length - 1; i >= 0; i--)\<close> is \<open>pruneLoop\<close>: its
  counter argument is \<open>i + 1\<close>, so \<open>0\<close> means that the loop condition \<open>i >= 0\<close> failed;
  \<^verbatim>\<open>break\<close> returns the accumulator, \<^verbatim>\<open>unshift\<close> is \<open>#\<close>.
\<close>

fun pruneLoop :: "('m \<Rightarrow> nat) \<Rightarrow> int \<Rightarrow> 'm list \<Rightarrow> nat \<Rightarrow> int \<Rightarrow> 'm list \<Rightarrow> 'm list" where
  "pruneLoop sz maxChars middleMessages 0 currentChars keptMiddle = keptMiddle"
| "pruneLoop sz maxChars middleMessages (Suc i) currentChars keptMiddle =
     (let msg = middleMessages ! i;
          len = int (sz msg)
      in if currentChars + len > maxChars then keptMiddle
         else pruneLoop sz maxChars middleMessages i (currentChars + len) (msg # keptMiddle))"

definition pruneMessages :: "('m \<Rightarrow> nat) \<Rightarrow> 'm list \<Rightarrow> int \<Rightarrow> 'm list" where
  "pruneMessages sz messages maxChars =
     (if length messages \<le> 2 then messages
      else
        let systemMsg = messages ! 0;
            lastMsg = messages ! (length messages - 1);
            currentChars = int (sz systemMsg) + int (sz lastMsg);
            middleMessages = take (length messages - 2) (drop 1 messages);
            keptMiddle = pruneLoop sz maxChars middleMessages (length middleMessages) currentChars []
        in [systemMsg] @ keptMiddle @ [lastMsg])"

text \<open>The serialized size of a list of messages, and the walk of the specification:
  the interior messages, most recent first, are taken while the running total stays
  within the budget; the walk stops at the first one that does not fit.\<close>

definition serializedTotal :: "('m \<Rightarrow> nat) \<Rightarrow> 'm list \<Rightarrow> int" where
  "serializedTotal sz ms = sum_list (map (\<lambda>m. int (sz m)) ms)"

fun keepRecent :: "('m \<Rightarrow> nat) \<Rightarrow> int \<Rightarrow> int \<Rightarrow> 'm list \<Rightarrow> 'm list" where
  "keepRecent sz maxChars running [] = []"
| "keepRecent sz maxChars running (m # older) =
     (if running + int (sz m) > maxChars then []
      else m # keepRecent sz maxChars (running + int (sz m)) older)"

lemma serializedTotal_simps [simp]:
  "serializedTotal sz [] = 0"
  "serializedTotal sz (m # ms) = int (sz m) + serializedTotal sz ms"
  "serializedTotal sz (xs @ ys) = serializedTotal sz xs + serializedTotal sz ys"
  "serializedTotal sz (rev xs) = serializedTotal sz xs"
  by (simp_all add: serializedTotal_def rev_map [symmetric])

lemma serializedTotal_nonneg: "0 \<le> serializedTotal sz ms"
  by (induction ms) simp_all

lemma pruneLoop_keepRecent:
  "n \<le> length mid \<Longrightarrow>
   pruneLoop sz b mid n cur kept = rev (keepRecent sz b cur (rev (take n mid))) @ kept"
proof (induction n arbitrary: cur kept)
  case 0
  then show ?case by simp
next
  case (Suc i)
  then have i: "i < length mid" by simp
  have tk: "rev (take (Suc i) mid) = mid ! i # rev (take i mid)"
    using i by (simp add: take_Suc_conv_app_nth)
  show ?case
  proof (cases "cur + int (sz (mid ! i)) > b")
    case True
    then show ?thesis by (simp add: tk)
  next
    case False
    have "pruneLoop sz b mid (Suc i) cur kept =
          pruneLoop sz b mid i (cur + int (sz (mid ! i))) (mid ! i # kept)"
      using False by (simp add: Let_def)
    also have "\<dots> = rev (keepRecent sz b (cur + int (sz (mid ! i))) (rev (take i mid))) @ mid ! i # kept"
      using Suc.IH [of "cur + int (sz (mid ! i))" "mid ! i # kept"] i by simp
    finally show ?thesis using False by (simp add: tk)
  qed
qed

lemma keepRecent_split:
  "\<exists>zs. xs = keepRecent sz b t xs @ zs \<and>
        (keepRecent sz b t xs \<noteq> [] \<longrightarrow> t + serializedTotal sz (keepRecent sz b t xs) \<le> b) \<and>
        (zs \<noteq> [] \<longrightarrow> b < t + serializedTotal sz (keepRecent sz b t xs) + int (sz (hd zs)))"
proof (induction xs arbitrary: t)
  case Nil
  then show ?case by simp
next
  case (Cons m older)
  show ?case
  proof (cases "t + int (sz m) > b")
    case True
    then show ?thesis by simp
  next
    case False
    from Cons.IH [of "t + int (sz m)"] obtain zs where
      zs: "older = keepRecent sz b (t + int (sz m)) older @ zs"
        "keepRecent sz b (t + int (sz m)) older \<noteq> [] \<longrightarrow>
           t + int (sz m) + serializedTotal sz (keepRecent sz b (t + int (sz m)) older) \<le> b"
        "zs \<noteq> [] \<longrightarrow>
           b < t + int (sz m) + serializedTotal sz (keepRecent sz b (t + int (sz m)) older) + int (sz (hd zs))"
      by blast
    have k: "keepRecent sz b t (m # older) = m # keepRecent sz b (t + int (sz m)) older"
      using False by simp
    have 1: "m # older = keepRecent sz b t (m # older) @ zs"
      using zs(1) k by simp
    have 2: "t + serializedTotal sz (keepRecent sz b t (m # older)) \<le> b"
    proof (cases "keepRecent sz b (t + int (sz m)) older = []")
      case True
      then show ?thesis using False k by simp
    next
      case False
      then show ?thesis using zs(2) k by (simp add: add.assoc)
    qed
    have 3: "zs \<noteq> [] \<longrightarrow> b < t + serializedTotal sz (keepRecent sz b t (m # older)) + int (sz (hd zs))"
      using zs(3) k by (simp add: add.assoc)
    from 1 2 3 show ?thesis by blast
  qed
qed

lemma keepRecent_idem:
  "keepRecent sz b t (keepRecent sz b t xs) = keepRecent sz b t xs"
  by (induction xs arbitrary: t) simp_all

lemma keepRecent_none:
  "\<forall>m \<in> set xs. b < t + int (sz m) \<Longrightarrow> keepRecent sz b t xs = []"
  by (cases xs) simp_all

lemma pruneMessages_long:
  assumes "2 < length messages"
  shows "pruneMessages sz messages b =
         hd messages #
         rev (keepRecent sz b (int (sz (hd messages)) + int (sz (last messages)))
                (rev (butlast (tl messages)))) @ [last messages]"
proof -
  let ?mid = "butlast (tl messages)"
  let ?base = "int (sz (hd messages)) + int (sz (last messages))"
  have ne: "messages \<noteq> []" using assms by auto
  have h: "messages ! 0 = hd messages" using ne by (simp add: hd_conv_nth)
  have l: "messages ! (length messages - 1) = last messages"
    using ne by (simp add: last_conv_nth)
  have m: "take (length messages - 2) (drop 1 messages) = ?mid"
    by (simp add: butlast_conv_take drop_Suc numeral_2_eq_2)
  have len: "length ?mid = length messages - 2"
    by simp
  have loop: "pruneLoop sz b ?mid (length ?mid) ?base [] = rev (keepRecent sz b ?base (rev ?mid))"
    using pruneLoop_keepRecent [of "length ?mid" ?mid sz b ?base "[]"] by simp
  have "pruneMessages sz messages b =
        [messages ! 0] @
        pruneLoop sz b (take (length messages - 2) (drop 1 messages))
          (length (take (length messages - 2) (drop 1 messages)))
          (int (sz (messages ! 0)) + int (sz (messages ! (length messages - 1)))) [] @
        [messages ! (length messages - 1)]"
    using assms unfolding pruneMessages_def Let_def by simp
  also have "\<dots> = [hd messages] @ pruneLoop sz b ?mid (length ?mid) ?base [] @ [last messages]"
    unfolding h l m ..
  finally show ?thesis unfolding loop by simp
qed

lemma pruneMessages_short:
  "length messages \<le> 2 \<Longrightarrow> pruneMessages sz messages b = messages"
  by (simp add: pruneMessages_def)


text \<open>
  \<^bold>\<open>C3.\<close> \<open>pruneMessages\<close> returns a history of two or fewer messages unchanged.
  Otherwise the interior messages (all but the first and the last) split into an older
  part that is dropped and a contiguous suffix that is kept, and the result is the first
  message, the kept suffix in its original order, and the last message. The kept
  suffix fits the budget together with the first and last messages (the running total is
  seeded with their sizes), and the walk stopped, rather than skipped, at the most recent
  dropped message: adding it to the kept ones goes over the budget. In particular, when
  no interior message fits on top of the first and the last, the result is exactly
  \<open>[first, last]\<close>.
\<close>

theorem pruneMessages_window:
  fixes sz :: "'m \<Rightarrow> nat" and messages :: "'m list" and maxChars :: int
  shows
    "(length messages \<le> 2 \<longrightarrow> pruneMessages sz messages maxChars = messages) \<and>
     (2 < length messages \<longrightarrow>
        (\<exists>dropped kept.
           butlast (tl messages) = dropped @ kept \<and>
           pruneMessages sz messages maxChars = hd messages # kept @ [last messages] \<and>
           (kept \<noteq> [] \<longrightarrow>
              int (sz (hd messages)) + int (sz (last messages)) + serializedTotal sz kept
                \<le> maxChars) \<and>
           (dropped \<noteq> [] \<longrightarrow>
              maxChars < int (sz (hd messages)) + int (sz (last messages))
                + serializedTotal sz kept + int (sz (last dropped))))) \<and>
     (2 < length messages \<and>
      (\<forall>m \<in> set (butlast (tl messages)).
          maxChars < int (sz (hd messages)) + int (sz (last messages)) + int (sz m)) \<longrightarrow>
        pruneMessages sz messages maxChars = [hd messages, last messages])"
proof (intro conjI impI)
  assume "length messages \<le> 2"
  then show "pruneMessages sz messages maxChars = messages"
    by (rule pruneMessages_short)
next
  assume long: "2 < length messages"
  let ?base = "int (sz (hd messages)) + int (sz (last messages))"
  let ?ys = "keepRecent sz maxChars ?base (rev (butlast (tl messages)))"
  from keepRecent_split [of "rev (butlast (tl messages))" sz maxChars ?base]
  obtain zs where zs: "rev (butlast (tl messages)) = ?ys @ zs"
    "?ys \<noteq> [] \<longrightarrow> ?base + serializedTotal sz ?ys \<le> maxChars"
    "zs \<noteq> [] \<longrightarrow> maxChars < ?base + serializedTotal sz ?ys + int (sz (hd zs))"
    by blast
  have split: "butlast (tl messages) = rev zs @ rev ?ys"
    using arg_cong [OF zs(1), of rev] by simp
  have res: "pruneMessages sz messages maxChars = hd messages # rev ?ys @ [last messages]"
    using pruneMessages_long [OF long] .
  have fits: "rev ?ys \<noteq> [] \<longrightarrow> ?base + serializedTotal sz (rev ?ys) \<le> maxChars"
    using zs(2) by simp
  have stop: "rev zs \<noteq> [] \<longrightarrow>
      maxChars < ?base + serializedTotal sz (rev ?ys) + int (sz (last (rev zs)))"
    using zs(3) by (simp add: last_rev)
  from split res fits stop
  show "\<exists>dropped kept.
           butlast (tl messages) = dropped @ kept \<and>
           pruneMessages sz messages maxChars = hd messages # kept @ [last messages] \<and>
           (kept \<noteq> [] \<longrightarrow> ?base + serializedTotal sz kept \<le> maxChars) \<and>
           (dropped \<noteq> [] \<longrightarrow>
              maxChars < ?base + serializedTotal sz kept + int (sz (last dropped)))"
    by blast
next
  assume a: "2 < length messages \<and>
      (\<forall>m \<in> set (butlast (tl messages)).
          maxChars < int (sz (hd messages)) + int (sz (last messages)) + int (sz m))"
  then have "keepRecent sz maxChars (int (sz (hd messages)) + int (sz (last messages)))
               (rev (butlast (tl messages))) = []"
    by (intro keepRecent_none) simp
  then show "pruneMessages sz messages maxChars = [hd messages, last messages]"
    using pruneMessages_long [of messages sz maxChars] a by simp
qed

theorem pruneMessages_window_witness:
  "pruneMessages length [''sys'', ''aaaa'', ''bb'', ''last''] 10 = [''sys'', ''bb'', ''last''] \<and>
   pruneMessages length [''sys'', ''aaaa'', ''bbbb'', ''last''] 10 = [''sys'', ''last''] \<and>
   pruneMessages length [''sys'', ''last''] 3 = [''sys'', ''last'']"
proof (intro conjI)
  from pruneMessages_window [of "[''sys'', ''aaaa'', ''bb'', ''last'']" length 10]
  obtain dropped kept where
    s: "[''aaaa'', ''bb''] = dropped @ kept"
    and r: "pruneMessages length [''sys'', ''aaaa'', ''bb'', ''last''] 10 = ''sys'' # kept @ [''last'']"
    and f: "kept \<noteq> [] \<longrightarrow> 7 + serializedTotal length kept \<le> 10"
    and d: "dropped \<noteq> [] \<longrightarrow> 10 < 7 + serializedTotal length kept + int (length (last dropped))"
    by auto
  from s have "(dropped = [] \<and> kept = [''aaaa'', ''bb'']) \<or>
               (dropped = [''aaaa''] \<and> kept = [''bb'']) \<or>
               (dropped = [''aaaa'', ''bb''] \<and> kept = [])"
    by (auto simp: append_eq_Cons_conv Cons_eq_append_conv)
  with f d have "kept = [''bb'']" by auto
  with r show "pruneMessages length [''sys'', ''aaaa'', ''bb'', ''last''] 10 = [''sys'', ''bb'', ''last'']"
    by simp
next
  show "pruneMessages length [''sys'', ''aaaa'', ''bbbb'', ''last''] 10 = [''sys'', ''last'']"
    using pruneMessages_window [of "[''sys'', ''aaaa'', ''bbbb'', ''last'']" length 10] by simp
next
  show "pruneMessages length [''sys'', ''last''] 3 = [''sys'', ''last'']"
    using pruneMessages_window [of "[''sys'', ''last'']" length 3] by simp
qed

text \<open>
  \<^bold>\<open>C4.\<close> \<open>pruneMessages\<close> is idempotent: pruning an already pruned history with the
  same budget returns it unchanged.
\<close>

theorem pruneMessages_idempotent:
  "pruneMessages sz (pruneMessages sz h b) b = pruneMessages sz h b"
proof (cases "length h \<le> 2")
  case True
  then show ?thesis by (simp add: pruneMessages_short)
next
  case False
  then have long: "2 < length h" by simp
  let ?base = "int (sz (hd h)) + int (sz (last h))"
  let ?ys = "keepRecent sz b ?base (rev (butlast (tl h)))"
  have res: "pruneMessages sz h b = hd h # rev ?ys @ [last h]"
    using pruneMessages_long [OF long] .
  show ?thesis
  proof (cases "?ys = []")
    case True
    then show ?thesis using res by (simp add: pruneMessages_short)
  next
    case False
    let ?r = "hd h # rev ?ys @ [last h]"
    have len: "2 < length ?r" using False by (cases ?ys) simp_all
    have mid: "butlast (tl ?r) = rev ?ys" by (simp add: butlast_append)
    have "pruneMessages sz ?r b =
          hd ?r # rev (keepRecent sz b (int (sz (hd ?r)) + int (sz (last ?r)))
                         (rev (butlast (tl ?r)))) @ [last ?r]"
      using pruneMessages_long [OF len] .
    also have "\<dots> = hd h # rev (keepRecent sz b ?base ?ys) @ [last h]"
      unfolding mid by simp
    also have "\<dots> = ?r" by (simp add: keepRecent_idem)
    finally show ?thesis using res by simp
  qed
qed

section \<open>AgentOrchestrator: the tool loop of \<open>AIService.sendMessage\<close>\<close>

text \<open>
  Source: \<^verbatim>\<open>src/unnamed/part_000\<close>, method \<^verbatim>\<open>AIService.sendMessage\<close>.

  \<open>sendMessage\<close> talks to a remote provider and runs the tools the provider asks for.
  The provider is outside the program, so it is an oracle: \<open>transport n\<close> is what the
  \<open>n\<close>-th network call of the run returns (\<^verbatim>\<open>chat.sendMessage\<close> of the Google SDK,
  \<^verbatim>\<open>fetch\<close> of the chat-completions endpoint), either a reply or an error
  (the SDK throwing, a response that is not \<^verbatim>\<open>ok\<close>). A reply carries the requested
  tool calls (\<^verbatim>\<open>response.functionCalls\<close>, \<^verbatim>\<open>msg.tool_calls\<close>; absent is the empty
  list) and its text (\<^verbatim>\<open>response.text\<close>, \<^verbatim>\<open>msg.content\<close>). The contents of
  the requests (pruned history, tool results appended to the conversation) only reach
  the provider, so they are not kept; every sequence of replies is covered by
  quantifying over the oracle.

  The run is recorded as a trace of events: each network call to the provider, and for
  each tool call the \<^verbatim>\<open>onToolStart\<close> callback and the \<^verbatim>\<open>onToolEnd\<close> callback
  with the tool's result. \<open>executeTool\<close> is a parameter acting on a world state; it
  returns a result in every case (the source catches every exception in it).

  The cancellation signal is fired from outside the run. \<open>Some k\<close> is a signal that
  is in the aborted state once \<open>k\<close> events of the run have happened (\<open>Some 0\<close>:
  aborted from the start), \<open>None\<close> one that never fires. \<^verbatim>\<open>fetch\<close> called with an
  aborted signal rejects with an \<^verbatim>\<open>AbortError\<close> and sends nothing.
\<close>

datatype AIProvider =
  Google | Groq | Huggingface | Mistral | Openrouter | Puter | Sambanova | Cerebras
  | Deepseek | Pollinations

record toolCall =
  callName :: string
  callArgs :: "(string \<times> string) list"
  callId :: string

record reply =
  toolCalls :: "toolCall list"
  replyText :: "string option"

datatype response = Reply reply | ProviderError string

datatype 'r event = ProviderCall nat | ToolStart string | ToolEnd string 'r

datatype outcome = Done string | Aborted | Failed string

record ('w, 'r) run_state =
  trace :: "'r event list"
  calls :: nat
  world :: 'w

type_synonym transport = "nat \<Rightarrow> response"

type_synonym abortSignal = "nat option"

definition aborted :: "abortSignal \<Rightarrow> ('w, 'r) run_state \<Rightarrow> bool" where
  "aborted signal st = (case signal of None \<Rightarrow> False | Some k \<Rightarrow> k \<le> length (trace st))"

definition maxTurns :: nat where
  "maxTurns = 5"

text \<open>\<^verbatim>\<open>text || ""\<close>: an absent text and the empty text both give the empty string.\<close>

definition orEmpty :: "string option \<Rightarrow> string" where
  "orEmpty t = (case t of None \<Rightarrow> [] | Some s \<Rightarrow> s)"

definition providerSend :: "transport \<Rightarrow> ('w, 'r) run_state \<Rightarrow> response \<times> ('w, 'r) run_state" where
  "providerSend provider st =
     (provider (calls st),
      st\<lparr>trace := trace st @ [ProviderCall (calls st)], calls := Suc (calls st)\<rparr>)"

definition dispatch ::
  "(toolCall \<Rightarrow> 'w \<Rightarrow> 'r \<times> 'w) \<Rightarrow> toolCall \<Rightarrow> ('w, 'r) run_state \<Rightarrow> ('w, 'r) run_state" where
  "dispatch executeTool call st =
     (let st1 = st\<lparr>trace := trace st @ [ToolStart (callName call)]\<rparr>;
          (result, w) = executeTool call (world st1)
      in st1\<lparr>trace := trace st1 @ [ToolEnd (callName call) result], world := w\<rparr>)"

definition dispatchAll ::
  "(toolCall \<Rightarrow> 'w \<Rightarrow> 'r \<times> 'w) \<Rightarrow> toolCall list \<Rightarrow> ('w, 'r) run_state \<Rightarrow> ('w, 'r) run_state" where
  "dispatchAll executeTool cs st = fold (dispatch executeTool) cs st"

text \<open>
  The Google branch: \<^verbatim>\<open>while (response.functionCalls && response.functionCalls.length > 0
  && turn < maxTurns) { turn++; ...; response = await chat.sendMessage(...) }
  return response.text || ""\<close>. The first \<^verbatim>\<open>chat.sendMessage\<close> is in \<open>sendMessage\<close>
  below. The branch never reads \<^verbatim>\<open>signal\<close>.
\<close>

function googleLoop ::
  "(toolCall \<Rightarrow> 'w \<Rightarrow> 'r \<times> 'w) \<Rightarrow> transport \<Rightarrow> reply \<Rightarrow> nat \<Rightarrow> ('w, 'r) run_state
     \<Rightarrow> outcome \<times> ('w, 'r) run_state" where
  "googleLoop executeTool chat response turn st =
     (if toolCalls response \<noteq> [] \<and> turn < maxTurns then
        (case providerSend chat (dispatchAll executeTool (toolCalls response) st) of
           (ProviderError e, st') \<Rightarrow> (Failed e, st')
         | (Reply response', st') \<Rightarrow> googleLoop executeTool chat response' (Suc turn) st')
      else (Done (orEmpty (replyText response)), st))"
  by pat_completeness auto
termination
  by (relation "measure (\<lambda>(executeTool, chat, response, turn, st). maxTurns - turn)") auto

text \<open>
  The OpenAI-compatible branch: \<^verbatim>\<open>while (turn < maxTurns) { res = await fetch(endpoint,
  {..., signal}); if (!res.ok) throw ...; if (msg.tool_calls && msg.tool_calls.length > 0)
  { ...; turn++ } else return msg.content || "" } return "Max turns reached"\<close>.
\<close>

function openaiLoop ::
  "(toolCall \<Rightarrow> 'w \<Rightarrow> 'r \<times> 'w) \<Rightarrow> transport \<Rightarrow> abortSignal \<Rightarrow> nat \<Rightarrow> ('w, 'r) run_state
     \<Rightarrow> outcome \<times> ('w, 'r) run_state" where
  "openaiLoop executeTool endpoint signal turn st =
     (if turn < maxTurns then
        (if aborted signal st then (Aborted, st)
         else
           (case providerSend endpoint st of
              (ProviderError errText, st') \<Rightarrow> (Failed (''Provider Error: '' @ errText), st')
            | (Reply msg, st') \<Rightarrow>
                if toolCalls msg \<noteq> [] then
                  openaiLoop executeTool endpoint signal (Suc turn)
                    (dispatchAll executeTool (toolCalls msg) st')
                else (Done (orEmpty (replyText msg)), st')))
      else (Done ''Max turns reached'', st))"
  by pat_completeness auto
termination
  by (relation "measure (\<lambda>(executeTool, endpoint, signal, turn, st). maxTurns - turn)") auto

definition sendMessage ::
  "(toolCall \<Rightarrow> 'w \<Rightarrow> 'r \<times> 'w) \<Rightarrow> AIProvider \<Rightarrow> transport \<Rightarrow> abortSignal \<Rightarrow> ('w, 'r) run_state
     \<Rightarrow> outcome \<times> ('w, 'r) run_state" where
  "sendMessage executeTool provider transport signal st =
     (if provider = Google then
        (case providerSend transport st of
           (ProviderError e, st') \<Rightarrow> (Failed e, st')
         | (Reply response, st') \<Rightarrow> googleLoop executeTool transport response 0 st')
      else if provider \<in> {Groq, Mistral, Openrouter, Sambanova, Cerebras, Deepseek, Pollinations}
      then openaiLoop executeTool transport signal 0 st
      else (Done ''Provider not implemented yet.'', st))"

definition toolDispatches :: "'r event list \<Rightarrow> nat" where
  "toolDispatches tr = length (filter (\<lambda>e. case e of ToolStart _ \<Rightarrow> True | _ \<Rightarrow> False) tr)"

text \<open>Two providers used below: one that asks for a tool in every reply, and one that
  asks for a tool once and then answers; a tool that does nothing; the initial state.\<close>

definition listFilesCall :: toolCall where
  "listFilesCall = \<lparr>callName = ''listFiles'', callArgs = [(''path'', '''')], callId = ''c1''\<rparr>"

definition alwaysTools :: transport where
  "alwaysTools n = Reply \<lparr>toolCalls = [listFilesCall], replyText = None\<rparr>"

definition toolThenText :: transport where
  "toolThenText n =
     (if n = 0 then Reply \<lparr>toolCalls = [listFilesCall], replyText = None\<rparr>
      else Reply \<lparr>toolCalls = [], replyText = Some ''done''\<rparr>)"

definition noTool :: "toolCall \<Rightarrow> unit \<Rightarrow> unit \<times> unit" where
  "noTool call w = ((), w)"

definition idle :: "(unit, unit) run_state" where
  "idle = \<lparr>trace = [], calls = 0, world = ()\<rparr>"

declare googleLoop.simps [simp del] openaiLoop.simps [simp del]

lemma dispatch_calls [simp]: "calls (dispatch ex c st) = calls st"
  by (simp add: dispatch_def Let_def split: prod.splits)

lemma dispatchAll_calls [simp]: "calls (dispatchAll ex cs st) = calls st"
  unfolding dispatchAll_def by (induction cs arbitrary: st) simp_all

lemma providerSend_calls [simp]: "calls (snd (providerSend chat st)) = Suc (calls st)"
  by (simp add: providerSend_def)

text \<open>The loop of each branch is bounded, whatever the provider replies: the Google loop issues at
  most \<open>maxTurns - turn\<close> further provider calls, and so does the OpenAI-compatible one.\<close>

lemma googleLoop_calls_bound:
  "calls (snd (googleLoop ex chat r turn st)) \<le> calls st + (maxTurns - turn)"
proof (induction ex chat r turn st rule: googleLoop.induct)
  case (1 ex chat response turn st)
  show ?case
  proof (cases "toolCalls response \<noteq> [] \<and> turn < maxTurns")
    case False
    then have "googleLoop ex chat response turn st = (Done (orEmpty (replyText response)), st)"
      by (subst googleLoop.simps) auto
    then show ?thesis by simp
  next
    case True
    obtain resp st' where ps: "providerSend chat (dispatchAll ex (toolCalls response) st) = (resp, st')"
      by (cases "providerSend chat (dispatchAll ex (toolCalls response) st)")
    have c: "calls st' = Suc (calls st)"
      using providerSend_calls [of chat "dispatchAll ex (toolCalls response) st"] ps by simp
    show ?thesis
    proof (cases resp)
      case (ProviderError e)
      then have "googleLoop ex chat response turn st = (Failed e, st')"
        using True ps by (subst googleLoop.simps) simp
      then show ?thesis using c True by auto
    next
      case (Reply r')
      have ih: "calls (snd (googleLoop ex chat r' (Suc turn) st')) \<le> calls st' + (maxTurns - Suc turn)"
        using "1.IH" [OF True ps [symmetric] Reply] .
      have "googleLoop ex chat response turn st = googleLoop ex chat r' (Suc turn) st'"
        using True ps Reply by (subst googleLoop.simps) simp
      then show ?thesis using ih c True by auto
    qed
  qed
qed

lemma openaiLoop_calls_bound:
  "calls (snd (openaiLoop ex api sig turn st)) \<le> calls st + (maxTurns - turn)"
proof (induction ex api sig turn st rule: openaiLoop.induct)
  case (1 ex api sig turn st)
  show ?case
  proof (cases "turn < maxTurns \<and> \<not> aborted sig st")
    case False
    then have "snd (openaiLoop ex api sig turn st) = st"
      by (subst openaiLoop.simps) auto
    then show ?thesis by simp
  next
    case True
    obtain resp st' where ps: "providerSend api st = (resp, st')"
      by (cases "providerSend api st")
    have c: "calls st' = Suc (calls st)"
      using providerSend_calls [of api st] ps by simp
    show ?thesis
    proof (cases resp)
      case (ProviderError e)
      then have "snd (openaiLoop ex api sig turn st) = st'"
        using True ps by (subst openaiLoop.simps) simp
      then show ?thesis using c True by auto
    next
      case (Reply msg)
      show ?thesis
      proof (cases "toolCalls msg \<noteq> []")
        case False
        then have "snd (openaiLoop ex api sig turn st) = st'"
          using True ps Reply by (subst openaiLoop.simps) simp
        then show ?thesis using c True by auto
      next
        case tc: True
        have ih: "calls (snd (openaiLoop ex api sig (Suc turn) (dispatchAll ex (toolCalls msg) st')))
              \<le> calls (dispatchAll ex (toolCalls msg) st') + (maxTurns - Suc turn)"
          using "1.IH" [OF _ _ ps [symmetric] Reply tc] True by simp
        have "openaiLoop ex api sig turn st =
              openaiLoop ex api sig (Suc turn) (dispatchAll ex (toolCalls msg) st')"
          using True ps Reply tc by (subst openaiLoop.simps) simp
        then show ?thesis using ih c True by auto
      qed
    qed
  qed
qed

text \<open>The Google branch does not depend on the signal.\<close>

lemma sendMessage_google_signal:
  "sendMessage ex Google api sig st = sendMessage ex Google api None st"
  by (simp add: sendMessage_def)

text \<open>On the OpenAI-compatible branch an aborted signal ends the run at the next
  \<^verbatim>\<open>fetch\<close>, in the state reached so far: no further provider call is issued.\<close>

lemma openaiLoop_aborted:
  "aborted sig st \<Longrightarrow> turn < maxTurns \<Longrightarrow> openaiLoop ex api sig turn st = (Aborted, st)"
  by (subst openaiLoop.simps) simp

lemma dispatchAll_single_trace:
  "toolDispatches (trace (dispatchAll ex [c] st)) = Suc (toolDispatches (trace st))"
  by (simp add: dispatchAll_def dispatch_def toolDispatches_def Let_def split: prod.splits)

lemma providerSend_trace:
  "toolDispatches (trace (snd (providerSend chat st))) = toolDispatches (trace st)"
  by (simp add: providerSend_def toolDispatches_def)

lemma googleLoop_alwaysTools:
  "toolCalls r = [listFilesCall] \<Longrightarrow> replyText r = None \<Longrightarrow> turn \<le> maxTurns \<Longrightarrow>
   fst (googleLoop ex alwaysTools r turn st) = Done '''' \<and>
   calls (snd (googleLoop ex alwaysTools r turn st)) = calls st + (maxTurns - turn) \<and>
   toolDispatches (trace (snd (googleLoop ex alwaysTools r turn st)))
     = toolDispatches (trace st) + (maxTurns - turn)"
proof (induction "maxTurns - turn" arbitrary: turn r st)
  case 0
  then have "googleLoop ex alwaysTools r turn st = (Done (orEmpty (replyText r)), st)"
    by (subst googleLoop.simps) simp
  then show ?case using 0 by (simp add: orEmpty_def)
next
  case (Suc n)
  let ?r = "\<lparr>toolCalls = [listFilesCall], replyText = None\<rparr>"
  let ?st = "snd (providerSend alwaysTools (dispatchAll ex [listFilesCall] st))"
  have lt: "turn < maxTurns" using Suc.hyps(2) by simp
  have step: "googleLoop ex alwaysTools r turn st = googleLoop ex alwaysTools ?r (Suc turn) ?st"
    using lt Suc.prems
    by (subst googleLoop.simps) (simp add: providerSend_def alwaysTools_def)
  have n: "n = maxTurns - Suc turn" using Suc.hyps(2) by simp
  have ih: "fst (googleLoop ex alwaysTools ?r (Suc turn) ?st) = Done '''' \<and>
     calls (snd (googleLoop ex alwaysTools ?r (Suc turn) ?st)) = calls ?st + (maxTurns - Suc turn) \<and>
     toolDispatches (trace (snd (googleLoop ex alwaysTools ?r (Suc turn) ?st)))
       = toolDispatches (trace ?st) + (maxTurns - Suc turn)"
    using Suc.hyps(1) [OF n, of ?r ?st] lt by simp
  have c: "calls ?st = Suc (calls st)" by simp
  have t: "toolDispatches (trace ?st) = Suc (toolDispatches (trace st))"
    by (simp add: providerSend_trace dispatchAll_single_trace)
  show ?case unfolding step using ih c t lt by auto
qed

lemma openaiLoop_alwaysTools:
  "turn \<le> maxTurns \<Longrightarrow>
   fst (openaiLoop ex alwaysTools None turn st) = Done ''Max turns reached'' \<and>
   calls (snd (openaiLoop ex alwaysTools None turn st)) = calls st + (maxTurns - turn) \<and>
   toolDispatches (trace (snd (openaiLoop ex alwaysTools None turn st)))
     = toolDispatches (trace st) + (maxTurns - turn)"
proof (induction "maxTurns - turn" arbitrary: turn st)
  case 0
  then have "openaiLoop ex alwaysTools None turn st = (Done ''Max turns reached'', st)"
    by (subst openaiLoop.simps) simp
  then show ?case using 0 by simp
next
  case (Suc n)
  let ?st = "dispatchAll ex [listFilesCall] (snd (providerSend alwaysTools st))"
  have lt: "turn < maxTurns" using Suc.hyps(2) by simp
  have step: "openaiLoop ex alwaysTools None turn st = openaiLoop ex alwaysTools None (Suc turn) ?st"
    using lt
    by (subst openaiLoop.simps) (simp add: providerSend_def alwaysTools_def aborted_def)
  have n: "n = maxTurns - Suc turn" using Suc.hyps(2) by simp
  have ih: "fst (openaiLoop ex alwaysTools None (Suc turn) ?st) = Done ''Max turns reached'' \<and>
     calls (snd (openaiLoop ex alwaysTools None (Suc turn) ?st)) = calls ?st + (maxTurns - Suc turn) \<and>
     toolDispatches (trace (snd (openaiLoop ex alwaysTools None (Suc turn) ?st)))
       = toolDispatches (trace ?st) + (maxTurns - Suc turn)"
    using Suc.hyps(1) [OF n, of ?st] lt by simp
  have c: "calls ?st = Suc (calls st)" by simp
  have t: "toolDispatches (trace ?st) = Suc (toolDispatches (trace st))"
    by (simp add: providerSend_trace dispatchAll_single_trace)
  show ?case unfolding step using ih c t lt by auto
qed

text \<open>
  \<^bold>\<open>C1.\<close> With a provider that requests a tool call in every reply, the Google branch
  performs 5 tool round-trips and 6 provider calls and then returns the text of the last
  reply (here the empty string), not the sentinel; the OpenAI-compatible branch, on the
  same provider, performs 5 round-trips and 5 provider calls and returns the sentinel
  \<open>''Max turns reached''\<close>. Both terminate in \<open>Done\<close>.
\<close>

theorem sendMessage_turn_ceiling:
  "fst (sendMessage ex Google alwaysTools sig st) = Done '''' \<and>
   calls (snd (sendMessage ex Google alwaysTools sig st)) = calls st + 6 \<and>
   toolDispatches (trace (snd (sendMessage ex Google alwaysTools sig st)))
     = toolDispatches (trace st) + 5 \<and>
   fst (sendMessage ex Groq alwaysTools None st) = Done ''Max turns reached'' \<and>
   calls (snd (sendMessage ex Groq alwaysTools None st)) = calls st + 5 \<and>
   toolDispatches (trace (snd (sendMessage ex Groq alwaysTools None st)))
     = toolDispatches (trace st) + 5"
proof -
  let ?r = "\<lparr>toolCalls = [listFilesCall], replyText = None\<rparr>"
  let ?st = "snd (providerSend alwaysTools st)"
  have g: "sendMessage ex Google alwaysTools sig st = googleLoop ex alwaysTools ?r 0 ?st"
    by (simp add: sendMessage_def providerSend_def alwaysTools_def)
  have o: "sendMessage ex Groq alwaysTools None st = openaiLoop ex alwaysTools None 0 st"
    by (simp add: sendMessage_def)
  show ?thesis
    unfolding g o
    using googleLoop_alwaysTools [of ?r 0 ex ?st] openaiLoop_alwaysTools [of 0 ex st]
    by (simp add: providerSend_trace maxTurns_def)
qed

text \<open>
  \<^bold>\<open>C2.\<close> The provider asks for one tool and then answers \<open>''done''\<close>; the signal fires
  when the first tool dispatch has begun (two events have happened: the first provider
  call and the start of the tool). The Google branch, which does not read the signal,
  issues a second provider call after that and ends in \<open>Done\<close>. The OpenAI-compatible
  branch on the same input ends in \<open>Aborted\<close> with no second provider call.
\<close>

theorem sendMessage_cancel_mid_loop:
  "sendMessage noTool Google toolThenText (Some 2) idle =
     (Done ''done'',
      \<lparr>trace = [ProviderCall 0, ToolStart ''listFiles'', ToolEnd ''listFiles'' (), ProviderCall 1],
       calls = 2, world = ()\<rparr>) \<and>
   sendMessage noTool Groq toolThenText (Some 2) idle =
     (Aborted,
      \<lparr>trace = [ProviderCall 0, ToolStart ''listFiles'', ToolEnd ''listFiles'' ()],
       calls = 1, world = ()\<rparr>)"
  by (simp add: googleLoop.simps openaiLoop.simps sendMessage_def idle_def toolThenText_def
      providerSend_def dispatchAll_def dispatch_def noTool_def orEmpty_def maxTurns_def
      aborted_def listFilesCall_def)

section \<open>VirtualFileSystem and CodeIndex: \<open>FileSystemService\<close>, \<open>KnowledgeService\<close>\<close>

text \<open>
  Sources: \<^verbatim>\<open>src/unnamed/part_001\<close> (class \<^verbatim>\<open>FileSystemService\<close>),
  \<^verbatim>\<open>src/services/knowledgeService.ts\<close>, \<^verbatim>\<open>src/services/syntaxService.ts\<close>, and
  \<^verbatim>\<open>AIService.executeTool\<close> in \<^verbatim>\<open>src/unnamed/part_000\<close>.
\<close>

subsection \<open>Strings and paths\<close>

text \<open>
  JavaScript strings are sequences of code units; the functions below only compare
  code units with ASCII characters, so \<open>string\<close> is used. \<^verbatim>\<open>toLowerCase\<close> is
  modelled on the ASCII letters.
\<close>

text \<open>\<^verbatim>\<open>s.split(c)\<close> for a one-character separator: never the empty list.\<close>

fun splitOn :: "char \<Rightarrow> string \<Rightarrow> string list" where
  "splitOn c [] = [[]]"
| "splitOn c (x # xs) =
     (if x = c then [] # splitOn c xs
      else (case splitOn c xs of [] \<Rightarrow> [[x]] | y # ys \<Rightarrow> (x # y) # ys))"

text \<open>\<^verbatim>\<open>path.split('/').filter(p => p !== '.' && p !== '')\<close>\<close>

definition pathParts :: "string \<Rightarrow> string list" where
  "pathParts path = filter (\<lambda>p. p \<noteq> ''.'' \<and> p \<noteq> '''') (splitOn CHR ''/'' path)"

text \<open>\<^verbatim>\<open>parts.join('/')\<close>\<close>

fun joinSlash :: "string list \<Rightarrow> string" where
  "joinSlash [] = []"
| "joinSlash [p] = p"
| "joinSlash (p # q # ps) = p @ ''/'' @ joinSlash (q # ps)"

text \<open>\<^verbatim>\<open>s.startsWith(t)\<close>, \<^verbatim>\<open>s.includes(t)\<close>, and \<^verbatim>\<open>/t$/.test(s)\<close> for a literal \<open>t\<close>.\<close>

definition startsWith :: "string \<Rightarrow> string \<Rightarrow> bool" where
  "startsWith s t = (take (length t) s = t)"

fun includesStr :: "string \<Rightarrow> string \<Rightarrow> bool" where
  "includesStr [] t = (t = [])"
| "includesStr (c # s) t = (startsWith (c # s) t \<or> includesStr s t)"

definition endsWith :: "string \<Rightarrow> string \<Rightarrow> bool" where
  "endsWith s t = (length t \<le> length s \<and> drop (length s - length t) s = t)"

definition toLowerChar :: "char \<Rightarrow> char" where
  "toLowerChar c =
     (if (65 :: nat) \<le> of_char c \<and> of_char c \<le> (90 :: nat)
      then char_of (of_char c + (32 :: nat)) else c)"

definition toLowerCase :: "string \<Rightarrow> string" where
  "toLowerCase s = map toLowerChar s"

subsection \<open>The tree, the index and the state\<close>

text \<open>
  A \<^verbatim>\<open>MemoryFile\<close> has a content, a \<^verbatim>\<open>MemoryDirectory\<close> has \<^verbatim>\<open>children:
  Record<string, MemoryEntry>\<close>, a plain JavaScript object created by the literal
  \<^verbatim>\<open>{}\<close>. Such an object is its own enumerable properties, here an association list
  from names to entries (assigned with \<open>AList.update\<close>: an existing key keeps its place,
  a new key goes last), together with its prototype, which is \<^verbatim>\<open>Object.prototype\<close>
  (\<open>None\<close>) until an assignment to the key \<^verbatim>\<open>__proto__\<close> replaces it by the object
  assigned (\<open>Some\<close> of that entry). The \<^verbatim>\<open>name\<close> field of an entry is always the key
  it was assigned under, so the key stands for it. The root directory object is
  represented by its children. The order in which JavaScript enumerates integer-like
  keys is not modelled.

  The directory tree of the host (the handles of the File System Access API behind the
  native backend) is outside the program; it is modelled by the same tree type, with the
  operations of its handles below, which use the list only. \<open>rootHandle\<close> is \<open>None\<close>
  while no directory was picked.
\<close>

datatype entry = MemoryFile string | MemoryDirectory "(string \<times> entry) list \<times> entry option"

type_synonym children = "(string \<times> entry) list \<times> entry option"

datatype fsProvider = Native | Memory

datatype fsError =
  FileNotFound string
  | PathCollision string
  | InvalidPath
  | NotFoundError
  | TypeMismatchError
  | TypeError

datatype changeType = Write | Delete

type_synonym notification = "changeType \<times> string \<times> string option"

record IndexEntry =
  entryPath :: string
  symbols :: "string list"
  summary :: string
  contentSnippet :: string
  lastModified :: nat

text \<open>
  What the program takes from its platform: the regular-expression symbol extractor of
  \<^verbatim>\<open>parseSymbols\<close> (content and extension to symbols and summary; no property below
  depends on what it extracts), \<^verbatim>\<open>window.Babel\<close> (\<open>None\<close> when not loaded; otherwise
  \<^verbatim>\<open>transform\<close>, which returns \<open>None\<close> or throws an error with a message), and the
  clock \<^verbatim>\<open>Date.now()\<close>.
\<close>

record env =
  parseSymbols :: "string \<Rightarrow> string \<Rightarrow> string list \<times> string"
  babel :: "(string \<Rightarrow> string \<Rightarrow> string option) option"
  now :: nat

text \<open>
  The state: the two backends of \<open>fileSystemService\<close>, the index of \<open>knowledgeService\<close>
  (a \<^verbatim>\<open>Map\<close>, in insertion order), and the log of the notifications delivered to the
  listeners.
\<close>

record system =
  provider :: fsProvider
  memoryRoot :: children
  rootHandle :: "children option"
  index :: "(string \<times> IndexEntry) list"
  notifications :: "notification list"

subsection \<open>KnowledgeService\<close>

definition isSpace :: "char \<Rightarrow> bool" where
  "isSpace c = (c \<in> set [CHR '' '', CHR 0x09, CHR 0x0A, CHR 0x0B, CHR 0x0C, CHR 0x0D])"

text \<open>\<^verbatim>\<open>s.replace(/\s+/g, ' ')\<close> and \<^verbatim>\<open>s.split(/\s+/)\<close>, with the ASCII white space
  for \<^verbatim>\<open>\s\<close>.\<close>

function collapseSpaces :: "string \<Rightarrow> string" where
  "collapseSpaces [] = []"
| "collapseSpaces (c # cs) =
     (if isSpace c then CHR '' '' # collapseSpaces (dropWhile isSpace cs)
      else c # collapseSpaces cs)"
  by pat_completeness auto
termination
  by (relation "measure length") (auto simp: length_dropWhile_le less_Suc_eq_le)

function splitSpaces :: "string \<Rightarrow> string list" where
  "splitSpaces [] = [[]]"
| "splitSpaces (c # cs) =
     (if isSpace c then [] # splitSpaces (dropWhile isSpace cs)
      else (case splitSpaces cs of [] \<Rightarrow> [[c]] | y # ys \<Rightarrow> (c # y) # ys))"
  by pat_completeness auto
termination
  by (relation "measure length") (auto simp: length_dropWhile_le less_Suc_eq_le)

definition indexFile :: "env \<Rightarrow> string \<Rightarrow> string \<Rightarrow> (string \<times> IndexEntry) list \<Rightarrow> (string \<times> IndexEntry) list" where
  "indexFile e path content idx =
     (if includesStr path ''node_modules'' \<or> startsWith path ''.'' then idx
      else
        let extension = last (splitOn CHR ''.'' path);
            (syms, summ) = parseSymbols e content extension
        in AList.update path
             \<lparr>entryPath = path, symbols = syms, summary = summ,
              contentSnippet = collapseSpaces (take 300 content), lastModified = now e\<rparr> idx)"

definition removeFile :: "string \<Rightarrow> (string \<times> IndexEntry) list \<Rightarrow> (string \<times> IndexEntry) list" where
  "removeFile path idx = AList.delete path idx"

record searchHit =
  hitPath :: string
  score :: nat
  reason :: string

fun joinComma :: "string list \<Rightarrow> string" where
  "joinComma [] = []"
| "joinComma [p] = p"
| "joinComma (p # q # ps) = p @ '', '' @ joinComma (q # ps)"

text \<open>The body of \<^verbatim>\<open>this.index.forEach\<close> in \<^verbatim>\<open>search\<close>: the hit of one entry, if its
  score is positive.\<close>

definition scoreEntry :: "string \<Rightarrow> IndexEntry \<Rightarrow> searchHit option" where
  "scoreEntry query entry =
     (let terms = splitSpaces (toLowerCase query);
          pathMatch = includesStr (toLowerCase (entryPath entry)) (toLowerCase query);
          matched = filter (\<lambda>sym. list_ex (\<lambda>t. includesStr (toLowerCase sym) t) terms) (symbols entry);
          snippetMatch = list_ex (\<lambda>t. includesStr (toLowerCase (contentSnippet entry)) t) terms;
          sc = (if pathMatch then 10 else 0) + 5 * length matched + (if snippetMatch then 1 else 0);
          reasons = (if pathMatch then [''Filename match''] else [])
                    @ map (\<lambda>sym. ''Symbol match: '' @ sym) matched
      in if sc > 0 then
           Some \<lparr>hitPath = entryPath entry, score = sc,
                 reason = ''['' @ joinComma (take 2 reasons) @ ''] '' @ summary entry\<rparr>
         else None)"

text \<open>\<^verbatim>\<open>results.sort((a, b) => b.score - a.score).slice(0, 10)\<close>; the sort is stable.\<close>

definition searchHits :: "(string \<times> IndexEntry) list \<Rightarrow> string \<Rightarrow> searchHit list" where
  "searchHits idx query =
     take 10 (sort_key (\<lambda>r. - int (score r)) (List.map_filter (\<lambda>(k, entry). scoreEntry query entry) idx))"

definition search :: "(string \<times> IndexEntry) list \<Rightarrow> string \<Rightarrow> string list" where
  "search idx query =
     map (\<lambda>r. ''FILE: '' @ hitPath r @ '' | RELEVANCE: '' @ reason r) (searchHits idx query)"

subsection \<open>Notification\<close>

text \<open>
  \<^verbatim>\<open>notify\<close> calls every listener. The one listener of the program is the one that the
  constructor of \<open>KnowledgeService\<close> subscribes (its unsubscribe function is dropped):
  \<^verbatim>\<open>if (type === 'delete') removeFile(path) else if (type === 'write' && content)
  indexFile(path, content)\<close>; the empty content is falsy.
\<close>

definition knowledgeListener ::
  "env \<Rightarrow> notification \<Rightarrow> (string \<times> IndexEntry) list \<Rightarrow> (string \<times> IndexEntry) list" where
  "knowledgeListener e n idx =
     (case n of
        (Delete, path, _) \<Rightarrow> removeFile path idx
      | (Write, path, Some content) \<Rightarrow> (if content \<noteq> [] then indexFile e path content idx else idx)
      | (Write, path, None) \<Rightarrow> idx)"

definition notify :: "env \<Rightarrow> notification \<Rightarrow> system \<Rightarrow> system" where
  "notify e n w = w\<lparr>index := knowledgeListener e n (index w), notifications := notifications w @ [n]\<rparr>"

subsection \<open>Memory backend\<close>

text \<open>
  The value of the expression \<^verbatim>\<open>children[key]\<close>, as far as the program looks at it: an
  entry; or another value that is truthy and has no \<^verbatim>\<open>kind\<close> (\<open>Foreign\<close>: a function
  of \<^verbatim>\<open>Object.prototype\<close>, \<^verbatim>\<open>Object.prototype\<close> itself, a non-empty string field of an
  entry that is the prototype); or a falsy value (\<open>Missing\<close>: \<^verbatim>\<open>undefined\<close>, or the empty
  content of a file that is the prototype).
\<close>

datatype member = Found entry | Foreign | Missing

text \<open>The properties of \<^verbatim>\<open>Object.prototype\<close> other than the accessor \<^verbatim>\<open>__proto__\<close>.\<close>

definition objectPrototypeNames :: "string list" where
  "objectPrototypeNames =
     [''constructor'', ''__defineGetter__'', ''__defineSetter__'', ''hasOwnProperty'',
      ''__lookupGetter__'', ''__lookupSetter__'', ''isPrototypeOf'', ''propertyIsEnumerable'',
      ''toString'', ''valueOf'', ''toLocaleString'']"

definition objectPrototypeMember :: "string \<Rightarrow> member" where
  "objectPrototypeMember key = (if key \<in> set objectPrototypeNames then Foreign else Missing)"

text \<open>The own properties of an entry object: \<^verbatim>\<open>name\<close>, \<^verbatim>\<open>kind\<close>, and \<^verbatim>\<open>content\<close> or
  \<^verbatim>\<open>children\<close>; \<open>None\<close> for any other key.\<close>

fun entryField :: "entry \<Rightarrow> string \<Rightarrow> member option" where
  "entryField (MemoryFile content) key =
     (if key = ''name'' \<or> key = ''kind'' then Some Foreign
      else if key = ''content'' then Some (if content = [] then Missing else Foreign)
      else None)"
| "entryField (MemoryDirectory ch) key =
     (if key = ''name'' \<or> key = ''kind'' \<or> key = ''children'' then Some Foreign else None)"

text \<open>
  \<^verbatim>\<open>children[key]\<close>: an own property; otherwise, for \<^verbatim>\<open>__proto__\<close>, the prototype (the
  getter of \<^verbatim>\<open>Object.prototype\<close>); otherwise the property inherited from the prototype
  entry, if there is one and it has the key, or from \<^verbatim>\<open>Object.prototype\<close>.
\<close>

definition getChild :: "children \<Rightarrow> string \<Rightarrow> member" where
  "getChild ch key =
     (case map_of (fst ch) key of
        Some x \<Rightarrow> Found x
      | None \<Rightarrow>
          if key = ''__proto__'' then (case snd ch of None \<Rightarrow> Foreign | Some x \<Rightarrow> Found x)
          else
            (case snd ch of
               None \<Rightarrow> objectPrototypeMember key
             | Some x \<Rightarrow>
                 (case entryField x key of
                    Some m \<Rightarrow> m
                  | None \<Rightarrow> objectPrototypeMember key)))"

text \<open>
  \<^verbatim>\<open>children[key] = value\<close> for an entry object \<open>value\<close>: the key \<^verbatim>\<open>__proto__\<close> (when not
  an own property) runs the setter of \<^verbatim>\<open>Object.prototype\<close>, which makes the value the
  prototype and creates no property; any other key becomes or stays an own property
  (the inherited properties are writable data properties).
  \<^verbatim>\<open>delete children[key]\<close> removes an own property and nothing else.
\<close>

definition setChild :: "string \<Rightarrow> entry \<Rightarrow> children \<Rightarrow> children" where
  "setChild key v ch =
     (if key = ''__proto__'' \<and> map_of (fst ch) key = None then (fst ch, Some v)
      else (AList.update key v (fst ch), snd ch))"

definition deleteChild :: "string \<Rightarrow> children \<Rightarrow> children" where
  "deleteChild key ch = (AList.delete key (fst ch), snd ch)"

text \<open>
  \<^verbatim>\<open>getMemoryEntry\<close>: the walk from the root along the parts. When the walk ends at a
  \<open>Foreign\<close> value the source returns that value, which is no entry: its two callers
  test \<^verbatim>\<open>kind\<close> and treat it as they treat \<^verbatim>\<open>null\<close>, so the result is \<open>None\<close> here.
\<close>

fun lookupEntry :: "entry \<Rightarrow> string list \<Rightarrow> entry option" where
  "lookupEntry current [] = Some current"
| "lookupEntry (MemoryFile c) (part # rest) = None"
| "lookupEntry (MemoryDirectory ch) (part # rest) =
     (case getChild ch part of
        Found nxt \<Rightarrow> lookupEntry nxt rest
      | Foreign \<Rightarrow> None
      | Missing \<Rightarrow> None)"

definition getMemoryEntry :: "children \<Rightarrow> string \<Rightarrow> entry option" where
  "getMemoryEntry root path = lookupEntry (MemoryDirectory root) (pathParts path)"

text \<open>
  \<^verbatim>\<open>ensureMemoryDir\<close> creates the missing directories along the parts and throws on a
  part whose value is not a directory: a file, or a \<open>Foreign\<close> value, whose \<^verbatim>\<open>kind\<close> is
  \<^verbatim>\<open>undefined\<close>. It returns a reference to the directory reached; here it returns the
  new tree, and the directory is the one at these parts. The directories created before
  it throws stay.
\<close>

fun ensureDirs :: "children \<Rightarrow> string list \<Rightarrow> (fsError + unit) \<times> children" where
  "ensureDirs ch [] = (Inr (), ch)"
| "ensureDirs ch (part # rest) =
     (case getChild ch part of
        Missing \<Rightarrow>
          (let (r, sub) = ensureDirs ([], None) rest
           in (r, setChild part (MemoryDirectory sub) ch))
      | Foreign \<Rightarrow> (Inl (PathCollision part), ch)
      | Found (MemoryFile c) \<Rightarrow> (Inl (PathCollision part), ch)
      | Found (MemoryDirectory sub) \<Rightarrow>
          (let (r, sub') = ensureDirs sub rest
           in (r, setChild part (MemoryDirectory sub') ch)))"

definition ensureMemoryDir :: "children \<Rightarrow> string \<Rightarrow> (fsError + unit) \<times> children" where
  "ensureMemoryDir root path = ensureDirs root (pathParts path)"

text \<open>A mutation of the children of the directory object found at the given parts.\<close>

fun updateAt :: "children \<Rightarrow> string list \<Rightarrow> (children \<Rightarrow> children) \<Rightarrow> children" where
  "updateAt ch [] f = f ch"
| "updateAt ch (part # rest) f =
     (case getChild ch part of
        Found (MemoryDirectory sub) \<Rightarrow> setChild part (MemoryDirectory (updateAt sub rest f)) ch
      | _ \<Rightarrow> ch)"

definition memoryWriteFile :: "env \<Rightarrow> system \<Rightarrow> string \<Rightarrow> string \<Rightarrow> (fsError + unit) \<times> system" where
  "memoryWriteFile e w path content =
     (let parts = pathParts path in
      if parts = [] then (Inr (), w)
      else
        let fileName = last parts;
            dirPath = joinSlash (butlast parts)
        in case ensureMemoryDir (memoryRoot w) dirPath of
             (Inl err, root) \<Rightarrow> (Inl err, w\<lparr>memoryRoot := root\<rparr>)
           | (Inr u, root) \<Rightarrow>
               (Inr (),
                notify e (Write, path, Some content)
                  (w\<lparr>memoryRoot :=
                       updateAt root (pathParts dirPath) (setChild fileName (MemoryFile content))\<rparr>)))"

subsection \<open>Native backend: the handles of the host\<close>

text \<open>
  A name is valid for the host when it is not empty, not \<open>.\<close> or \<open>..\<close>, and has no path
  separator; otherwise the handle methods throw a \<^verbatim>\<open>TypeError\<close>. \<open>nativeWalk\<close> is
  the loop \<^verbatim>\<open>for (const part of parts) currentDir = await
  currentDir.getDirectoryHandle(part, {create})\<close> followed by an operation \<open>k\<close> on the
  directory reached; a directory that was created stays when a later step throws.
  Permission errors of the host are not modelled. The host keeps its entries by name:
  \<open>hostPut\<close> and \<open>hostRemove\<close> act on the list, and no name is special.
\<close>

definition hostPut :: "string \<Rightarrow> entry \<Rightarrow> children \<Rightarrow> children" where
  "hostPut name v ch = (AList.update name v (fst ch), snd ch)"

definition hostRemove :: "string \<Rightarrow> children \<Rightarrow> children" where
  "hostRemove name ch = (AList.delete name (fst ch), snd ch)"

definition validName :: "string \<Rightarrow> bool" where
  "validName name = (name \<noteq> [] \<and> name \<noteq> ''.'' \<and> name \<noteq> ''..'' \<and> CHR ''/'' \<notin> set name)"

fun nativeWalk ::
  "bool \<Rightarrow> children \<Rightarrow> string list \<Rightarrow> (children \<Rightarrow> (fsError + 'a) \<times> children)
     \<Rightarrow> (fsError + 'a) \<times> children" where
  "nativeWalk create ch [] k = k ch"
| "nativeWalk create ch (part # rest) k =
     (if \<not> validName part then (Inl TypeError, ch)
      else
        (case map_of (fst ch) part of
           None \<Rightarrow>
             if create then
               (let (r, sub) = nativeWalk create ([], None) rest k
                in (r, hostPut part (MemoryDirectory sub) ch))
             else (Inl NotFoundError, ch)
         | Some (MemoryFile c) \<Rightarrow> (Inl TypeMismatchError, ch)
         | Some (MemoryDirectory sub) \<Rightarrow>
             (let (r, sub') = nativeWalk create sub rest k
              in (r, hostPut part (MemoryDirectory sub') ch))))"

text \<open>\<^verbatim>\<open>getFileHandle(fileName, {create: true})\<close>, \<^verbatim>\<open>createWritable\<close>, \<^verbatim>\<open>write\<close>,
  \<^verbatim>\<open>close\<close>.\<close>

definition nativePutFile :: "string \<Rightarrow> string \<Rightarrow> children \<Rightarrow> (fsError + unit) \<times> children" where
  "nativePutFile fileName content ch =
     (if \<not> validName fileName then (Inl TypeError, ch)
      else
        (case map_of (fst ch) fileName of
           Some (MemoryDirectory sub) \<Rightarrow> (Inl TypeMismatchError, ch)
         | _ \<Rightarrow> (Inr (), hostPut fileName (MemoryFile content) ch)))"

text \<open>\<^verbatim>\<open>getFileHandle(fileName)\<close>, \<^verbatim>\<open>getFile\<close>, \<^verbatim>\<open>text\<close>.\<close>

definition nativeGetFile :: "string \<Rightarrow> children \<Rightarrow> (fsError + string) \<times> children" where
  "nativeGetFile fileName ch =
     (if \<not> validName fileName then (Inl TypeError, ch)
      else
        (case map_of (fst ch) fileName of
           None \<Rightarrow> (Inl NotFoundError, ch)
         | Some (MemoryDirectory sub) \<Rightarrow> (Inl TypeMismatchError, ch)
         | Some (MemoryFile content) \<Rightarrow> (Inr content, ch)))"

text \<open>\<^verbatim>\<open>removeEntry(name, {recursive: true})\<close>\<close>

definition nativeRemoveEntry :: "string \<Rightarrow> children \<Rightarrow> (fsError + unit) \<times> children" where
  "nativeRemoveEntry name ch =
     (if \<not> validName name then (Inl TypeError, ch)
      else
        (case map_of (fst ch) name of
           None \<Rightarrow> (Inl NotFoundError, ch)
         | Some _ \<Rightarrow> (Inr (), hostRemove name ch)))"

text \<open>\<^verbatim>\<open>parts.pop()!\<close> on no parts is \<^verbatim>\<open>undefined\<close>, which a handle method converts to
  the string \<open>undefined\<close>.\<close>

definition popName :: "string list \<Rightarrow> string" where
  "popName parts = (if parts = [] then ''undefined'' else last parts)"

subsection \<open>File operations\<close>

definition readFile :: "system \<Rightarrow> string \<Rightarrow> fsError + string" where
  "readFile w path =
     (if provider w = Memory then
        (case getMemoryEntry (memoryRoot w) path of
           Some (MemoryFile content) \<Rightarrow> Inr content
         | _ \<Rightarrow> Inl (FileNotFound path))
      else
        (let parts = pathParts path in
         if parts = [] then Inl InvalidPath
         else
           (case rootHandle w of
              None \<Rightarrow> Inl TypeError
            | Some root \<Rightarrow> fst (nativeWalk False root (butlast parts) (nativeGetFile (last parts))))))"

definition writeFile :: "env \<Rightarrow> system \<Rightarrow> string \<Rightarrow> string \<Rightarrow> (fsError + unit) \<times> system" where
  "writeFile e w path content =
     (if provider w = Memory then memoryWriteFile e w path content
      else
        (let parts = pathParts path;
             fileName = popName parts
         in case rootHandle w of
              None \<Rightarrow> (Inl TypeError, w)
            | Some root \<Rightarrow>
                (case nativeWalk True root (butlast parts) (nativePutFile fileName content) of
                   (Inl err, root') \<Rightarrow> (Inl err, w\<lparr>rootHandle := Some root'\<rparr>)
                 | (Inr u, root') \<Rightarrow>
                     (Inr (), notify e (Write, path, Some content) (w\<lparr>rootHandle := Some root'\<rparr>)))))"

definition createDirectory :: "system \<Rightarrow> string \<Rightarrow> (fsError + unit) \<times> system" where
  "createDirectory w path =
     (if provider w = Memory then
        (case ensureMemoryDir (memoryRoot w) path of
           (r, root) \<Rightarrow> (r, w\<lparr>memoryRoot := root\<rparr>))
      else
        (case rootHandle w of
           None \<Rightarrow> (if pathParts path = [] then (Inr (), w) else (Inl TypeError, w))
         | Some root \<Rightarrow>
             (case nativeWalk True root (pathParts path) (\<lambda>ch. (Inr (), ch)) of
                (r, root') \<Rightarrow> (r, w\<lparr>rootHandle := Some root'\<rparr>))))"

definition deleteEntry :: "env \<Rightarrow> system \<Rightarrow> string \<Rightarrow> (fsError + unit) \<times> system" where
  "deleteEntry e w path =
     (if provider w = Memory then
        (let parts = pathParts path in
         if parts = [] then (Inr (), w)
         else
           let name = last parts;
               dirPath = joinSlash (butlast parts)
           in case getMemoryEntry (memoryRoot w) dirPath of
                Some (MemoryDirectory sub) \<Rightarrow>
                  (Inr (),
                   notify e (Delete, path, None)
                     (w\<lparr>memoryRoot := updateAt (memoryRoot w) (pathParts dirPath) (deleteChild name)\<rparr>))
              | _ \<Rightarrow> (Inr (), w))
      else
        (let parts = pathParts path;
             name = popName parts
         in case rootHandle w of
              None \<Rightarrow> (Inl TypeError, w)
            | Some root \<Rightarrow>
                (case nativeWalk False root (butlast parts) (nativeRemoveEntry name) of
                   (Inl err, root') \<Rightarrow> (Inl err, w\<lparr>rootHandle := Some root'\<rparr>)
                 | (Inr u, root') \<Rightarrow>
                     (Inr (), notify e (Delete, path, None) (w\<lparr>rootHandle := Some root'\<rparr>)))))"

subsection \<open>\<open>searchFiles\<close>\<close>

text \<open>
  The inner function \<^verbatim>\<open>traverse(dir, path)\<close>, the same for both backends once the
  items of the directory are listed (\<^verbatim>\<open>Object.values\<close> of the children, the own
  enumerable properties, or the entries of the handle): an item named \<open>node_modules\<close> or starting with a dot
  is skipped, a file whose lower-cased name includes the lower-cased query is pushed as
  \<^verbatim>\<open>[NAME] path\<close>, a directory is traversed.
\<close>

definition skipped :: "string \<Rightarrow> bool" where
  "skipped name = (name = ''node_modules'' \<or> startsWith name ''.'')"

definition childPath :: "string \<Rightarrow> string \<Rightarrow> string" where
  "childPath path name = (if path \<noteq> [] then path @ ''/'' @ name else name)"

fun traverse :: "string \<Rightarrow> string \<Rightarrow> children \<Rightarrow> string list" where
  "traverse lowerQuery path ([], pr) = []"
| "traverse lowerQuery path ((name, MemoryFile c) # items, pr) =
     (if skipped name then []
      else if includesStr (toLowerCase name) lowerQuery then [''[NAME] '' @ childPath path name]
      else [])
     @ traverse lowerQuery path (items, pr)"
| "traverse lowerQuery path ((name, MemoryDirectory sub) # items, pr) =
     (if skipped name then [] else traverse lowerQuery (childPath path name) sub)
     @ traverse lowerQuery path (items, pr)"

definition getRootHandle :: "system \<Rightarrow> children option" where
  "getRootHandle w = (if provider w = Native then rootHandle w else Some (memoryRoot w))"

definition searchFiles :: "system \<Rightarrow> string \<Rightarrow> string list" where
  "searchFiles w query =
     (case getRootHandle w of
        None \<Rightarrow> []
      | Some root \<Rightarrow> traverse (toLowerCase query) [] root)"

text \<open>The skip list of \<^verbatim>\<open>readDirectoryRecursive\<close>, the recursive lister.\<close>

definition listerExcluded :: "string list" where
  "listerExcluded = [''node_modules'', ''.git'', ''dist'', ''build'', ''.next'']"

subsection \<open>SyntaxService and the tool execution boundary\<close>

text \<open>\<^verbatim>\<open>/\.(js|jsx|ts|tsx)$/.test(filename)\<close>\<close>

definition scriptExtension :: "string \<Rightarrow> bool" where
  "scriptExtension filename =
     list_ex (\<lambda>ext. endsWith filename ext) [''.js'', ''.jsx'', ''.ts'', ''.tsx'']"

definition validate :: "env \<Rightarrow> string \<Rightarrow> string \<Rightarrow> string option" where
  "validate e code filename =
     (if \<not> scriptExtension filename then None
      else (case babel e of None \<Rightarrow> None | Some transform \<Rightarrow> transform code filename))"

text \<open>
  The tool calls of \<open>executeTool\<close> that act on the file system or the index, with their
  required arguments. A thrown error becomes \<^verbatim>\<open>{error: e.message}\<close>; the messages of
  the host's errors are its own.
\<close>

datatype toolRequest =
  ReadFile string
  | WriteFile string string
  | CreateDirectory string
  | DeleteFile string
  | SearchFiles string
  | SearchCodebase string

datatype toolResult =
  Success
  | ErrorResult string
  | FileContent string
  | Matches "string list"

fun errorMessage :: "fsError \<Rightarrow> string" where
  "errorMessage (FileNotFound path) = ''File not found: '' @ path"
| "errorMessage (PathCollision part) = ''Path collision: '' @ part @ '' is a file.''"
| "errorMessage InvalidPath = ''Invalid path''"
| "errorMessage NotFoundError = ''NotFoundError''"
| "errorMessage TypeMismatchError = ''TypeMismatchError''"
| "errorMessage TypeError = ''TypeError''"

definition succeeded :: "(fsError + unit) \<times> system \<Rightarrow> toolResult \<times> system" where
  "succeeded r = (case r of (Inl err, w) \<Rightarrow> (ErrorResult (errorMessage err), w) | (Inr u, w) \<Rightarrow> (Success, w))"

fun executeTool :: "env \<Rightarrow> toolRequest \<Rightarrow> system \<Rightarrow> toolResult \<times> system" where
  "executeTool e (ReadFile path) w =
     (case readFile w path of
        Inl err \<Rightarrow> (ErrorResult (errorMessage err), w)
      | Inr content \<Rightarrow> (FileContent content, w))"
| "executeTool e (WriteFile path content) w =
     (case validate e content path of
        Some syntaxError \<Rightarrow>
          if syntaxError \<noteq> [] then (ErrorResult (''Syntax Error: '' @ syntaxError), w)
          else succeeded (writeFile e w path content)
      | None \<Rightarrow> succeeded (writeFile e w path content))"
| "executeTool e (CreateDirectory path) w = succeeded (createDirectory w path)"
| "executeTool e (DeleteFile path) w = succeeded (deleteEntry e w path)"
| "executeTool e (SearchFiles query) w = (Matches (searchFiles w query), w)"
| "executeTool e (SearchCodebase query) w = (Matches (search (index w) query), w)"

subsection \<open>Paths: splitting and joining\<close>

lemma splitOn_nonempty: "splitOn c s \<noteq> []"
  by (induction s) (auto split: list.splits)

lemma splitOn_no_separator: "x \<in> set (splitOn c s) \<Longrightarrow> c \<notin> set x"
proof (induction s arbitrary: x)
  case Nil
  then show ?case by simp
next
  case (Cons a s)
  show ?case
  proof (cases "a = c")
    case True
    then show ?thesis using Cons by auto
  next
    case False
    obtain y ys where ys: "splitOn c s = y # ys"
      using splitOn_nonempty [of c s] by (cases "splitOn c s") auto
    then have "x = a # y \<or> x \<in> set ys" using Cons.prems False by simp
    then show ?thesis using Cons.IH ys False by auto
  qed
qed

lemma splitOn_plain: "c \<notin> set p \<Longrightarrow> splitOn c p = [p]"
  by (induction p) auto

lemma splitOn_segment: "c \<notin> set p \<Longrightarrow> splitOn c (p @ c # rest) = p # splitOn c rest"
  by (induction p) auto

lemma splitOn_joinSlash:
  "ps \<noteq> [] \<Longrightarrow> \<forall>p \<in> set ps. CHR ''/'' \<notin> set p \<Longrightarrow> splitOn CHR ''/'' (joinSlash ps) = ps"
proof (induction ps rule: joinSlash.induct)
  case 1
  then show ?case by simp
next
  case (2 p)
  then show ?case by (simp add: splitOn_plain)
next
  case (3 p q ps)
  then show ?case by (simp add: splitOn_segment)
qed

definition segment :: "string \<Rightarrow> bool" where
  "segment p = (p \<noteq> [] \<and> p \<noteq> ''.'' \<and> CHR ''/'' \<notin> set p)"

lemma pathParts_segments: "p \<in> set (pathParts path) \<Longrightarrow> segment p"
  using splitOn_no_separator [of p "CHR ''/''" path] by (auto simp: pathParts_def segment_def)

lemma pathParts_joinSlash: "\<forall>p \<in> set ps. segment p \<Longrightarrow> pathParts (joinSlash ps) = ps"
proof (cases "ps = []")
  case True
  then show ?thesis by (simp add: pathParts_def)
next
  case False
  assume a: "\<forall>p \<in> set ps. segment p"
  then have "splitOn CHR ''/'' (joinSlash ps) = ps"
    using False by (intro splitOn_joinSlash) (auto simp: segment_def)
  then show ?thesis using a by (simp add: pathParts_def segment_def filter_id_conv)
qed

lemma pathParts_parent:
  "pathParts (joinSlash (butlast (pathParts path))) = butlast (pathParts path)"
  by (intro pathParts_joinSlash) (auto dest: in_set_butlastD pathParts_segments)

subsection \<open>Memory backend: lookup after a mutation\<close>

lemma getChild_setChild: "getChild (setChild key v ch) key = Found v"
  by (simp add: getChild_def setChild_def AList.update_conv')

lemma getChild_own: "getChild ch key = Found v \<Longrightarrow> key \<noteq> ''__proto__'' \<Longrightarrow> map_of (fst ch) key = Some v"
  by (cases "snd ch"; cases "map_of (fst ch) key")
     (auto simp: getChild_def objectPrototypeMember_def split: option.splits if_splits
           elim!: entryField.elims)

lemma setChild_same: "getChild ch key = Found v \<Longrightarrow> setChild key v ch = ch"
proof (cases "map_of (fst ch) key")
  case None
  assume g: "getChild ch key = Found v"
  have k: "key = ''__proto__''"
  proof (rule ccontr)
    assume "key \<noteq> ''__proto__''"
    from getChild_own [OF g this] None show False by simp
  qed
  with g None have "snd ch = Some v"
    by (simp add: getChild_def split: option.splits)
  with k None show ?thesis by (simp add: setChild_def prod_eq_iff)
next
  case (Some x)
  assume "getChild ch key = Found v"
  with Some have "x = v" by (simp add: getChild_def)
  with Some show ?thesis by (simp add: setChild_def AList.update_triv prod_eq_iff)
qed

lemma delete_absent: "map_of al k = None \<Longrightarrow> AList.delete k al = al"
  by (induction al) auto

lemma deleteChild_absent: "\<forall>v. getChild ch key \<noteq> Found v \<Longrightarrow> deleteChild key ch = ch"
  by (cases "map_of (fst ch) key") (simp_all add: getChild_def deleteChild_def delete_absent prod_eq_iff)

lemma getChild_deleteChild:
  "key \<noteq> ''__proto__'' \<Longrightarrow> getChild (deleteChild key ch) key \<noteq> Found v"
proof
  assume k: "key \<noteq> ''__proto__''" and "getChild (deleteChild key ch) key = Found v"
  from getChild_own [OF this(2) k] show False
    by (simp add: deleteChild_def AList.delete_conv')
qed

lemma lookupEntry_snoc:
  "lookupEntry x (ps @ [n]) =
     (case lookupEntry x ps of
        Some (MemoryDirectory sub) \<Rightarrow> (case getChild sub n of Found y \<Rightarrow> Some y | _ \<Rightarrow> None)
      | _ \<Rightarrow> None)"
proof (induction ps arbitrary: x)
  case Nil
  show ?case by (cases x) (auto split: member.splits)
next
  case (Cons part rest)
  show ?case
  proof (cases x)
    case (MemoryFile c)
    then show ?thesis by simp
  next
    case (MemoryDirectory ch)
    then show ?thesis using Cons.IH by (simp split: member.splits)
  qed
qed

lemma ensureDirs_directory:
  "ensureDirs ch ps = (Inr u, ch') \<Longrightarrow> \<exists>sub. lookupEntry (MemoryDirectory ch') ps = Some (MemoryDirectory sub)"
proof (induction ps arbitrary: ch ch')
  case Nil
  then show ?case by simp
next
  case (Cons part rest)
  show ?case
  proof (cases "getChild ch part")
    case Missing
    with Cons.prems obtain sub where s: "ensureDirs ([], None) rest = (Inr u, sub)"
      and c: "ch' = setChild part (MemoryDirectory sub) ch"
      by (auto split: prod.splits)
    from Cons.IH [OF s] show ?thesis by (simp add: c getChild_setChild)
  next
    case Foreign
    then show ?thesis using Cons.prems by simp
  next
    case (Found nxt)
    show ?thesis
    proof (cases nxt)
      case (MemoryFile c)
      then show ?thesis using Cons.prems Found by simp
    next
      case (MemoryDirectory sub0)
      with Cons.prems Found obtain sub where s: "ensureDirs sub0 rest = (Inr u, sub)"
        and c: "ch' = setChild part (MemoryDirectory sub) ch"
        by (auto split: prod.splits)
      from Cons.IH [OF s] show ?thesis by (simp add: c getChild_setChild)
    qed
  qed
qed

lemma lookupEntry_directory:
  assumes "lookupEntry (MemoryDirectory ch) (part # rest) = Some y"
  obtains nxt where "getChild ch part = Found nxt" and "lookupEntry nxt rest = Some y"
  using assms by (auto split: member.splits)

lemma lookupEntry_updateAt:
  "lookupEntry (MemoryDirectory ch) ps = Some (MemoryDirectory sub) \<Longrightarrow>
   lookupEntry (MemoryDirectory (updateAt ch ps f)) (ps @ qs) = lookupEntry (MemoryDirectory (f sub)) qs"
proof (induction ps arbitrary: ch)
  case Nil
  then show ?case by simp
next
  case (Cons part rest)
  from Cons.prems obtain nxt where n: "getChild ch part = Found nxt"
    and l: "lookupEntry nxt rest = Some (MemoryDirectory sub)"
    by (rule lookupEntry_directory)
  show ?case
  proof (cases nxt)
    case (MemoryFile c)
    then show ?thesis using l by (cases rest) simp_all
  next
    case (MemoryDirectory sub0)
    then show ?thesis
      using n l Cons.IH [of sub0] by (simp add: getChild_setChild)
  qed
qed

lemma updateAt_same:
  "lookupEntry (MemoryDirectory ch) ps = Some (MemoryDirectory sub) \<Longrightarrow> f sub = sub \<Longrightarrow>
   updateAt ch ps f = ch"
proof (induction ps arbitrary: ch)
  case Nil
  then show ?case by simp
next
  case (Cons part rest)
  from Cons.prems(1) obtain nxt where n: "getChild ch part = Found nxt"
    and l: "lookupEntry nxt rest = Some (MemoryDirectory sub)"
    by (rule lookupEntry_directory)
  show ?case
  proof (cases nxt)
    case (MemoryFile c)
    then show ?thesis using n by simp
  next
    case (MemoryDirectory sub0)
    then show ?thesis
      using n l Cons.IH [of sub0] Cons.prems(2) by (simp add: setChild_same)
  qed
qed

lemma notify_fields [simp]:
  "provider (notify e n w) = provider w"
  "memoryRoot (notify e n w) = memoryRoot w"
  "rootHandle (notify e n w) = rootHandle w"
  "notifications (notify e n w) = notifications w @ [n]"
  "index (notify e n w) = knowledgeListener e n (index w)"
  by (simp_all add: notify_def)

lemma parts_snoc: "pathParts p \<noteq> [] \<Longrightarrow> pathParts p = butlast (pathParts p) @ [last (pathParts p)]"
  by simp

lemma memory_write_read:
  assumes m: "provider w = Memory" and ne: "pathParts p \<noteq> []"
    and wr: "writeFile e w p c = (Inr u, w')"
  shows "readFile w' p = Inr c"
proof -
  let ?bl = "butlast (pathParts p)" and ?fn = "last (pathParts p)"
  from wr m ne obtain root where en: "ensureDirs (memoryRoot w) ?bl = (Inr (), root)"
    and w': "w' = notify e (Write, p, Some c)
        (w\<lparr>memoryRoot := updateAt root ?bl (setChild ?fn (MemoryFile c))\<rparr>)"
    by (auto simp: writeFile_def memoryWriteFile_def Let_def ensureMemoryDir_def pathParts_parent
        split: sum.splits prod.splits)
  from ensureDirs_directory [OF en] obtain sub where
    d: "lookupEntry (MemoryDirectory root) ?bl = Some (MemoryDirectory sub)" by blast
  have "lookupEntry (MemoryDirectory (updateAt root ?bl (setChild ?fn (MemoryFile c)))) (?bl @ [?fn])
        = Some (MemoryFile c)"
    by (simp add: lookupEntry_updateAt [OF d] getChild_setChild)
  then have "getMemoryEntry (memoryRoot w') p = Some (MemoryFile c)"
    using parts_snoc [OF ne] by (simp add: getMemoryEntry_def w')
  then show ?thesis using m by (simp add: readFile_def w')
qed

subsection \<open>Native backend: lookup after a mutation\<close>

lemma map_of_hostPut: "map_of (fst (hostPut name v ch)) name = Some v"
  by (simp add: hostPut_def AList.update_conv')

lemma map_of_hostRemove: "map_of (fst (hostRemove name ch)) name = None"
  by (simp add: hostRemove_def AList.delete_conv')

lemma native_put_get:
  "nativeWalk True ch ps (nativePutFile fn c) = (Inr u, ch') \<Longrightarrow>
   fst (nativeWalk False ch' ps (nativeGetFile fn)) = Inr c"
proof (induction ps arbitrary: ch ch')
  case Nil
  then show ?case
    by (auto simp: nativePutFile_def nativeGetFile_def map_of_hostPut
        split: if_splits option.splits entry.splits)
next
  case (Cons part rest)
  from Cons.prems have v: "validName part" by (auto split: if_splits)
  show ?case
  proof (cases "map_of (fst ch) part")
    case None
    with Cons.prems v obtain sub where s: "nativeWalk True ([], None) rest (nativePutFile fn c) = (Inr u, sub)"
      and c: "ch' = hostPut part (MemoryDirectory sub) ch"
      by (auto split: prod.splits)
    from Cons.IH [OF s] show ?thesis
      using v by (simp add: c map_of_hostPut split_beta)
  next
    case (Some nxt)
    show ?thesis
    proof (cases nxt)
      case (MemoryFile x)
      then show ?thesis using Cons.prems Some v by simp
    next
      case (MemoryDirectory sub0)
      with Cons.prems Some v obtain sub where s: "nativeWalk True sub0 rest (nativePutFile fn c) = (Inr u, sub)"
        and c: "ch' = hostPut part (MemoryDirectory sub) ch"
        by (auto split: prod.splits)
      from Cons.IH [OF s] show ?thesis
        using v by (simp add: c map_of_hostPut split_beta)
    qed
  qed
qed

lemma native_write_read:
  assumes m: "provider w \<noteq> Memory" and ne: "pathParts p \<noteq> []"
    and wr: "writeFile e w p c = (Inr u, w')"
  shows "readFile w' p = Inr c"
proof -
  let ?bl = "butlast (pathParts p)" and ?fn = "last (pathParts p)"
  from wr m ne obtain root root' where r: "rootHandle w = Some root"
    and wk: "nativeWalk True root ?bl (nativePutFile ?fn c) = (Inr (), root')"
    and w': "w' = notify e (Write, p, Some c) (w\<lparr>rootHandle := Some root'\<rparr>)"
    by (auto simp: writeFile_def Let_def popName_def split: option.splits prod.splits sum.splits)
  from native_put_get [OF wk] show ?thesis
    using m ne by (simp add: readFile_def w' Let_def)
qed

text \<open>Where a write succeeds, on either backend, the file reads back as written.\<close>

lemma writeFile_then_readFile:
  "pathParts p \<noteq> [] \<Longrightarrow> writeFile e w p c = (Inr (), w') \<Longrightarrow> readFile w' p = Inr c"
  by (cases "provider w = Memory") (auto intro: memory_write_read native_write_read)

subsection \<open>Sample platform and states\<close>

text \<open>A platform whose symbol extractor gives, on the contents and extensions used below,
  what \<^verbatim>\<open>parseSymbols\<close> gives on them, and whose Babel rejects one content; the empty
  workspace on each backend.\<close>

definition sampleEnv :: env where
  "sampleEnv =
     \<lparr>parseSymbols = (\<lambda>content extension.
        if content = ''function main() {}'' \<and> extension = ''ts''
        then ([''Function: main''], ''Contains 1 definitions including main...'')
        else ([], ''File contains logic.'')),
      babel = Some (\<lambda>code filename.
        if code = ''const x = ;'' then Some ''Unexpected token (1:10)'' else None),
      now = 0\<rparr>"

definition emptyMemory :: system where
  "emptyMemory =
     \<lparr>provider = Memory, memoryRoot = ([], None), rootHandle = None, index = [], notifications = []\<rparr>"

definition emptyNative :: system where
  "emptyNative =
     \<lparr>provider = Native, memoryRoot = ([], None), rootHandle = Some ([], None), index = [],
      notifications = []\<rparr>"

text \<open>
  \<^bold>\<open>C7.\<close> The path \<open>constructor/x.txt\<close> has two segments, and in the empty workspace
  no segment of it exists as a file. On the memory backend \<open>writeFile\<close> of it fails:
  \<^verbatim>\<open>children['constructor']\<close> of the empty root is the function inherited from
  \<^verbatim>\<open>Object.prototype\<close>, which \<^verbatim>\<open>ensureMemoryDir\<close> takes for a file; the tool returns the
  error \<open>Path collision: constructor is a file.\<close>, nothing is written, and \<open>readFile\<close> of
  the path fails. On the native backend the same write followed by the read returns the
  content.
\<close>

theorem writeFile_inherited_name_collision:
  "pathParts ''constructor/x.txt'' = [''constructor'', ''x.txt''] \<and>
   memoryRoot emptyMemory = ([], None) \<and>
   writeFile sampleEnv emptyMemory ''constructor/x.txt'' ''hello''
     = (Inl (PathCollision ''constructor''), emptyMemory) \<and>
   executeTool sampleEnv (WriteFile ''constructor/x.txt'' ''hello'') emptyMemory
     = (ErrorResult ''Path collision: constructor is a file.'', emptyMemory) \<and>
   readFile emptyMemory ''constructor/x.txt'' = Inl (FileNotFound ''constructor/x.txt'') \<and>
   readFile (snd (writeFile sampleEnv emptyNative ''constructor/x.txt'' ''hello'')) ''constructor/x.txt''
     = Inr ''hello''"
  by code_simp

text \<open>
  \<^bold>\<open>C6.\<close> A \<open>writeFile\<close> tool call whose path has a JS/TS/JSX/TSX extension and for whose
  content Babel throws an error with a (non-empty) message returns the error result
  \<open>Syntax Error: message\<close> and leaves the whole state unchanged: reading the path
  afterwards gives what it gave before, the old content or the not-found error.
\<close>

theorem writeFile_rejected_unchanged:
  assumes "scriptExtension path" and "babel e = Some transform"
    and "transform content path = Some msg" and "msg \<noteq> []"
  shows "executeTool e (WriteFile path content) w = (ErrorResult (''Syntax Error: '' @ msg), w) \<and>
         readFile (snd (executeTool e (WriteFile path content) w)) path = readFile w path"
  using assms by (simp add: validate_def)

theorem writeFile_rejected_unchanged_witness:
  "executeTool sampleEnv (WriteFile ''src/a.ts'' ''const x = ;'') emptyMemory
     = (ErrorResult ''Syntax Error: Unexpected token (1:10)'', emptyMemory) \<and>
   readFile (snd (executeTool sampleEnv (WriteFile ''src/a.ts'' ''const x = ;'') emptyMemory)) ''src/a.ts''
     = Inl (FileNotFound ''src/a.ts'')"
proof -
  let ?t = "\<lambda>code filename. if code = ''const x = ;'' then Some ''Unexpected token (1:10)'' else None"
  have 1: "scriptExtension ''src/a.ts''" by code_simp
  have 2: "babel sampleEnv = Some ?t" by (simp add: sampleEnv_def)
  have 3: "?t ''const x = ;'' ''src/a.ts'' = Some ''Unexpected token (1:10)''" by simp
  have 4: "''Unexpected token (1:10)'' \<noteq> []" by simp
  have 5: "readFile emptyMemory ''src/a.ts'' = Inl (FileNotFound ''src/a.ts'')" by code_simp
  show ?thesis
    using writeFile_rejected_unchanged [OF 1 2 3 4, of emptyMemory] 5 by simp
qed

text \<open>
  \<^bold>\<open>C10.\<close> On the memory backend, \<open>deleteEntry\<close> of a path whose parent directory exists
  but which itself does not exist completes without error, the \<open>deleteFile\<close> tool reports
  success, the tree is unchanged, and exactly one notification \<open>(Delete, p)\<close> is added
  to those delivered.
\<close>

theorem deleteEntry_absent_notifies:
  assumes m: "provider w = Memory" and ne: "pathParts p \<noteq> []"
    and parent: "getMemoryEntry (memoryRoot w) (joinSlash (butlast (pathParts p)))
                   = Some (MemoryDirectory sub)"
    and absent: "getMemoryEntry (memoryRoot w) p = None"
  shows "\<exists>w'. deleteEntry e w p = (Inr (), w') \<and>
              executeTool e (DeleteFile p) w = (Success, w') \<and>
              notifications w' = notifications w @ [(Delete, p, None)] \<and>
              memoryRoot w' = memoryRoot w"
proof -
  let ?bl = "butlast (pathParts p)" and ?name = "last (pathParts p)"
  let ?root = "updateAt (memoryRoot w) ?bl (deleteChild ?name)"
  let ?w' = "notify e (Delete, p, None) (w\<lparr>memoryRoot := ?root\<rparr>)"
  have d: "lookupEntry (MemoryDirectory (memoryRoot w)) ?bl = Some (MemoryDirectory sub)"
    using parent by (simp add: getMemoryEntry_def pathParts_parent)
  have "lookupEntry (MemoryDirectory (memoryRoot w)) (?bl @ [?name]) = None"
    using absent parts_snoc [OF ne] by (simp add: getMemoryEntry_def)
  then have "\<forall>v. getChild sub ?name \<noteq> Found v"
    using d by (auto simp: lookupEntry_snoc)
  then have same: "?root = memoryRoot w"
    using updateAt_same [OF d] by (simp add: deleteChild_absent)
  have del: "deleteEntry e w p = (Inr (), ?w')"
    using m ne parent by (simp add: deleteEntry_def Let_def pathParts_parent)
  show ?thesis
    using del same by (intro exI [of _ ?w']) (simp add: succeeded_def)
qed

theorem deleteEntry_absent_notifies_witness:
  "deleteEntry sampleEnv emptyMemory ''ghost.ts''
     = (Inr (), emptyMemory\<lparr>notifications := [(Delete, ''ghost.ts'', None)]\<rparr>) \<and>
   executeTool sampleEnv (DeleteFile ''ghost.ts'') emptyMemory
     = (Success, emptyMemory\<lparr>notifications := [(Delete, ''ghost.ts'', None)]\<rparr>)"
proof -
  have 1: "provider emptyMemory = Memory" by (simp add: emptyMemory_def)
  have 2: "pathParts ''ghost.ts'' \<noteq> []" by code_simp
  have 3: "getMemoryEntry (memoryRoot emptyMemory) (joinSlash (butlast (pathParts ''ghost.ts'')))
             = Some (MemoryDirectory ([], None))" by code_simp
  have 4: "getMemoryEntry (memoryRoot emptyMemory) ''ghost.ts'' = None" by code_simp
  from deleteEntry_absent_notifies [OF 1 2 3 4, of sampleEnv]
  obtain w' where w': "deleteEntry sampleEnv emptyMemory ''ghost.ts'' = (Inr (), w')"
    "executeTool sampleEnv (DeleteFile ''ghost.ts'') emptyMemory = (Success, w')"
    by blast
  have "snd (deleteEntry sampleEnv emptyMemory ''ghost.ts'')
          = emptyMemory\<lparr>notifications := [(Delete, ''ghost.ts'', None)]\<rparr>"
    by code_simp
  then show ?thesis using w' by simp
qed

subsection \<open>Deleting an existing file\<close>

text \<open>Every entry of the index is stored under its own path: true of the empty index and
  kept by \<open>indexFile\<close> and \<open>removeFile\<close>.\<close>

definition indexKeyed :: "(string \<times> IndexEntry) list \<Rightarrow> bool" where
  "indexKeyed idx = list_all (\<lambda>(k, entry). entryPath entry = k) idx"

text \<open>The state after \<^verbatim>\<open>writeFile('a/b.ts', 'function main() {}')\<close> and
  \<^verbatim>\<open>deleteEntry('a')\<close> on the empty memory workspace.\<close>

definition afterDirectoryDelete :: system where
  "afterDirectoryDelete =
     snd (deleteEntry sampleEnv
            (snd (writeFile sampleEnv emptyMemory ''a/b.ts'' ''function main() {}'')) ''a'')"

text \<open>The state after \<^verbatim>\<open>writeFile('__proto__', 'hello')\<close> on the empty memory workspace:
  the file is the prototype of the root's children.\<close>

definition afterPrototypeWrite :: system where
  "afterPrototypeWrite = snd (writeFile sampleEnv emptyMemory ''__proto__'' ''hello'')"

lemma update_member:
  "(k', v') \<in> set (AList.update k v al) \<Longrightarrow> (k' = k \<and> v' = v) \<or> (k', v') \<in> set al"
  by (induction al) (auto split: if_splits)

lemma indexKeyed_empty: "indexKeyed []"
  by (simp add: indexKeyed_def)

lemma indexKeyed_indexFile: "indexKeyed idx \<Longrightarrow> indexKeyed (indexFile e path content idx)"
  by (auto simp: indexKeyed_def indexFile_def Let_def list_all_iff split: prod.splits
      dest!: update_member)

lemma indexKeyed_removeFile: "indexKeyed idx \<Longrightarrow> indexKeyed (removeFile path idx)"
  by (auto simp: indexKeyed_def removeFile_def list_all_iff AList.delete_eq)

lemma indexKeyed_listener: "indexKeyed idx \<Longrightarrow> indexKeyed (knowledgeListener e n idx)"
  by (auto simp: knowledgeListener_def indexKeyed_indexFile indexKeyed_removeFile
      split: prod.splits changeType.splits option.splits)

text \<open>So every state reached from the empty index through the tools has its index
  entries under their own paths.\<close>

lemma writeFile_indexKeyed:
  "indexKeyed (index w) \<Longrightarrow> indexKeyed (index (snd (writeFile e w p c)))"
  by (auto simp: writeFile_def memoryWriteFile_def Let_def indexKeyed_listener
      split: sum.splits option.splits prod.splits)

lemma deleteEntry_indexKeyed:
  "indexKeyed (index w) \<Longrightarrow> indexKeyed (index (snd (deleteEntry e w p)))"
  by (auto simp: deleteEntry_def Let_def indexKeyed_listener
      split: sum.splits option.splits prod.splits entry.splits)

lemma createDirectory_index: "index (snd (createDirectory w p)) = index w"
  by (auto simp: createDirectory_def split: sum.splits option.splits prod.splits)

lemma executeTool_indexKeyed:
  "indexKeyed (index w) \<Longrightarrow> indexKeyed (index (snd (executeTool e request w)))"
proof (cases request)
  case (WriteFile p c)
  assume "indexKeyed (index w)"
  then show ?thesis
    using WriteFile writeFile_indexKeyed [of w e p c]
    by (cases "writeFile e w p c") (auto simp: succeeded_def split: option.splits sum.splits)
next
  case (DeleteFile p)
  assume "indexKeyed (index w)"
  then show ?thesis
    using DeleteFile deleteEntry_indexKeyed [of w e p]
    by (cases "deleteEntry e w p") (auto simp: succeeded_def split: sum.splits)
next
  case (CreateDirectory p)
  assume "indexKeyed (index w)"
  then show ?thesis
    using CreateDirectory createDirectory_index [of w p]
    by (cases "createDirectory w p") (auto simp: succeeded_def split: sum.splits)
qed (auto split: sum.splits)

lemma scoreEntry_hitPath: "scoreEntry q entry = Some h \<Longrightarrow> hitPath h = entryPath entry"
  by (auto simp: scoreEntry_def Let_def split: if_splits)

lemma map_filter_member:
  "y \<in> set (List.map_filter f xs) \<Longrightarrow> \<exists>x \<in> set xs. f x = Some y"
  by (induction xs) (auto split: option.splits)

lemma searchHits_from_index:
  assumes "h \<in> set (searchHits idx q)"
  shows "\<exists>k entry. (k, entry) \<in> set idx \<and> hitPath h = entryPath entry"
proof -
  from assms have "h \<in> set (List.map_filter (\<lambda>(k, entry). scoreEntry q entry) idx)"
    by (auto simp: searchHits_def dest: in_set_takeD)
  then obtain k entry where "(k, entry) \<in> set idx" "scoreEntry q entry = Some h"
    by (auto dest!: map_filter_member)
  then show ?thesis using scoreEntry_hitPath by blast
qed

lemma searchHits_removed:
  assumes "indexKeyed idx"
  shows "p \<notin> hitPath ` set (searchHits (removeFile p idx) q)"
proof
  assume "p \<in> hitPath ` set (searchHits (removeFile p idx) q)"
  then obtain h where h: "h \<in> set (searchHits (removeFile p idx) q)" "hitPath h = p" by auto
  from searchHits_from_index [OF h(1)] obtain k entry where
    ke: "(k, entry) \<in> set (removeFile p idx)" "hitPath h = entryPath entry" by blast
  from ke(1) have "(k, entry) \<in> set idx" "k \<noteq> p"
    by (auto simp: removeFile_def AList.delete_eq)
  then have "entryPath entry \<noteq> p"
    using assms by (auto simp: indexKeyed_def list_all_iff)
  then show False using ke(2) h(2) by simp
qed

lemma removeFile_lookup: "map_of (removeFile p idx) p = None"
  by (simp add: removeFile_def AList.delete_conv')

lemma native_get_remove:
  "fst (nativeWalk False ch ps (nativeGetFile n)) = Inr c \<Longrightarrow>
   \<exists>ch'. nativeWalk False ch ps (nativeRemoveEntry n) = (Inr (), ch') \<and>
         fst (nativeWalk False ch' ps (nativeGetFile n)) = Inl NotFoundError"
proof (induction ps arbitrary: ch)
  case Nil
  then have "validName n" and "\<exists>x. map_of (fst ch) n = Some x"
    by (auto simp: nativeGetFile_def split: if_splits option.splits entry.splits)
  then show ?case
    by (intro exI [of _ "hostRemove n ch"])
       (auto simp: nativeGetFile_def nativeRemoveEntry_def map_of_hostRemove)
next
  case (Cons part rest)
  from Cons.prems have v: "validName part" by (auto split: if_splits)
  from Cons.prems v obtain sub where s: "map_of (fst ch) part = Some (MemoryDirectory sub)"
    and g: "fst (nativeWalk False sub rest (nativeGetFile n)) = Inr c"
    by (auto simp: split_beta split: option.splits entry.splits)
  from Cons.IH [OF g] obtain sub' where
    r: "nativeWalk False sub rest (nativeRemoveEntry n) = (Inr (), sub')"
    and f: "fst (nativeWalk False sub' rest (nativeGetFile n)) = Inl NotFoundError"
    by blast
  show ?case
    using v s r f
    by (intro exI [of _ "hostPut part (MemoryDirectory sub') ch"])
       (simp add: map_of_hostPut split_beta)
qed

lemma memory_delete_existing:
  assumes m: "provider w = Memory" and isFile: "readFile w p = Inr c"
    and own: "last (pathParts p) \<noteq> ''__proto__''"
  shows "\<exists>w'. deleteEntry e w p = (Inr (), w') \<and> readFile w' p = Inl (FileNotFound p) \<and>
              index w' = removeFile p (index w) \<and>
              notifications w' = notifications w @ [(Delete, p, None)]"
proof -
  let ?bl = "butlast (pathParts p)" and ?name = "last (pathParts p)"
  let ?root = "updateAt (memoryRoot w) ?bl (deleteChild ?name)"
  let ?w' = "notify e (Delete, p, None) (w\<lparr>memoryRoot := ?root\<rparr>)"
  from isFile m have l: "lookupEntry (MemoryDirectory (memoryRoot w)) (pathParts p) = Some (MemoryFile c)"
    by (auto simp: readFile_def getMemoryEntry_def split: option.splits entry.splits)
  then have ne: "pathParts p \<noteq> []" by auto
  from l parts_snoc [OF ne] have "lookupEntry (MemoryDirectory (memoryRoot w)) (?bl @ [?name]) = Some (MemoryFile c)"
    by simp
  then obtain sub where d: "lookupEntry (MemoryDirectory (memoryRoot w)) ?bl = Some (MemoryDirectory sub)"
    by (auto simp: lookupEntry_snoc split: option.splits entry.splits)
  have del: "deleteEntry e w p = (Inr (), ?w')"
    using m ne d by (simp add: deleteEntry_def Let_def getMemoryEntry_def pathParts_parent)
  have "lookupEntry (MemoryDirectory ?root) (?bl @ [?name]) = None"
    using getChild_deleteChild [OF own, of sub]
    by (simp add: lookupEntry_updateAt [OF d] split: member.splits)
  then have "getMemoryEntry (memoryRoot ?w') p = None"
    using parts_snoc [OF ne] by (simp add: getMemoryEntry_def)
  then have rd: "readFile ?w' p = Inl (FileNotFound p)"
    using m by (simp add: readFile_def)
  show ?thesis
    using del rd by (intro exI [of _ ?w']) (simp add: knowledgeListener_def)
qed

lemma native_delete_existing:
  assumes m: "provider w \<noteq> Memory" and isFile: "readFile w p = Inr c"
  shows "\<exists>w'. deleteEntry e w p = (Inr (), w') \<and> readFile w' p = Inl NotFoundError \<and>
              index w' = removeFile p (index w) \<and>
              notifications w' = notifications w @ [(Delete, p, None)]"
proof -
  let ?bl = "butlast (pathParts p)" and ?name = "last (pathParts p)"
  from isFile m obtain root where ne: "pathParts p \<noteq> []" and r: "rootHandle w = Some root"
    and g: "fst (nativeWalk False root ?bl (nativeGetFile ?name)) = Inr c"
    by (auto simp: readFile_def Let_def split: if_splits option.splits)
  from native_get_remove [OF g] obtain root' where
    rm: "nativeWalk False root ?bl (nativeRemoveEntry ?name) = (Inr (), root')"
    and nf: "fst (nativeWalk False root' ?bl (nativeGetFile ?name)) = Inl NotFoundError"
    by blast
  let ?w' = "notify e (Delete, p, None) (w\<lparr>rootHandle := Some root'\<rparr>)"
  have del: "deleteEntry e w p = (Inr (), ?w')"
    using m ne r rm by (simp add: deleteEntry_def Let_def popName_def)
  have rd: "readFile ?w' p = Inl NotFoundError"
    using m ne nf by (simp add: readFile_def Let_def)
  show ?thesis
    using del rd by (intro exI [of _ ?w']) (simp add: knowledgeListener_def)
qed

text \<open>
  \<^bold>\<open>C8\<close> (as the code has it). For every path \<open>p\<close> that exists as a file, on either
  backend, and whose last segment, on the memory backend, is not \<^verbatim>\<open>__proto__\<close>:
  \<open>deleteEntry p\<close> succeeds, delivers the notification \<open>(Delete, p)\<close>, after it
  \<open>readFile p\<close> fails with the not-found error of the backend, the index has no entry
  under \<open>p\<close>, and no search, whatever the query, returns a hit for \<open>p\<close>. The index is
  one whose entries are stored under their own paths, as in every state reached through
  the tools.
\<close>

theorem deleteEntry_existing_file:
  assumes isFile: "readFile w p = Inr c" and keyed: "indexKeyed (index w)"
    and own: "provider w = Memory \<Longrightarrow> last (pathParts p) \<noteq> ''__proto__''"
  shows "\<exists>w'. deleteEntry e w p = (Inr (), w') \<and>
              readFile w' p = Inl (if provider w = Memory then FileNotFound p else NotFoundError) \<and>
              map_of (index w') p = None \<and>
              (\<forall>q. p \<notin> hitPath ` set (searchHits (index w') q)) \<and>
              notifications w' = notifications w @ [(Delete, p, None)]"
proof (cases "provider w = Memory")
  case True
  from memory_delete_existing [OF True isFile own [OF True], of e] obtain w' where
    "deleteEntry e w p = (Inr (), w')" "readFile w' p = Inl (FileNotFound p)"
    "index w' = removeFile p (index w)" "notifications w' = notifications w @ [(Delete, p, None)]"
    by blast
  then show ?thesis
    using True searchHits_removed [OF keyed, of p] removeFile_lookup [of p "index w"]
    by (intro exI [of _ w']) simp
next
  case False
  from native_delete_existing [OF False isFile, of e] obtain w' where
    "deleteEntry e w p = (Inr (), w')" "readFile w' p = Inl NotFoundError"
    "index w' = removeFile p (index w)" "notifications w' = notifications w @ [(Delete, p, None)]"
    by blast
  then show ?thesis
    using False searchHits_removed [OF keyed, of p] removeFile_lookup [of p "index w"]
    by (intro exI [of _ w']) simp
qed

theorem deleteEntry_existing_file_witness:
  "readFile (snd (writeFile sampleEnv emptyMemory ''a/b.ts'' ''function main() {}'')) ''a/b.ts''
     = Inr ''function main() {}'' \<and>
   ''a/b.ts'' \<in> hitPath ` set (searchHits
       (index (snd (writeFile sampleEnv emptyMemory ''a/b.ts'' ''function main() {}''))) ''main'') \<and>
   (\<exists>w'. deleteEntry sampleEnv (snd (writeFile sampleEnv emptyMemory ''a/b.ts'' ''function main() {}'')) ''a/b.ts''
           = (Inr (), w') \<and>
         readFile w' ''a/b.ts'' = Inl (FileNotFound ''a/b.ts'') \<and>
         ''a/b.ts'' \<notin> hitPath ` set (searchHits (index w') ''main''))"
proof -
  let ?w = "snd (writeFile sampleEnv emptyMemory ''a/b.ts'' ''function main() {}'')"
  have 1: "readFile ?w ''a/b.ts'' = Inr ''function main() {}''" by code_simp
  have 2: "indexKeyed (index ?w)" by code_simp
  have 3: "provider ?w = Memory" by code_simp
  have 4: "''a/b.ts'' \<in> hitPath ` set (searchHits (index ?w) ''main'')" by code_simp
  have 5: "last (pathParts ''a/b.ts'') \<noteq> ''__proto__''" by code_simp
  show ?thesis
    using deleteEntry_existing_file [OF 1 2 5, of sampleEnv] 1 3 4 by auto
qed

text \<open>
  \<^bold>\<open>C8\<close> (as stated) fails for an indexed path whose directory was deleted before: after
  \<^verbatim>\<open>writeFile('a/b.ts', ...)\<close> and \<^verbatim>\<open>deleteEntry('a')\<close> the index still has \<open>a/b.ts\<close>;
  \<^verbatim>\<open>deleteEntry('a/b.ts')\<close> then completes without a notification, \<open>readFile\<close> fails with
  not-found, and the search for the symbol extracted from the file still returns it.
  It also fails, on the memory backend, for the indexed file \<^verbatim>\<open>__proto__\<close>: written, it
  is the prototype of the root's children and no property of them, \<^verbatim>\<open>delete\<close> removes
  nothing, and after \<open>deleteEntry\<close> (which notifies, so that the index entry goes)
  \<open>readFile\<close> still returns the content.
\<close>

theorem deleteEntry_stale_index_counterexample:
  "map_of (index afterDirectoryDelete) ''a/b.ts'' \<noteq> None \<and>
   fst (deleteEntry sampleEnv afterDirectoryDelete ''a/b.ts'') = Inr () \<and>
   readFile (snd (deleteEntry sampleEnv afterDirectoryDelete ''a/b.ts'')) ''a/b.ts''
     = Inl (FileNotFound ''a/b.ts'') \<and>
   search (index (snd (deleteEntry sampleEnv afterDirectoryDelete ''a/b.ts''))) ''main''
     = [''FILE: a/b.ts | RELEVANCE: [Symbol match: Function: main] Contains 1 definitions including main...''] \<and>
   memoryRoot afterPrototypeWrite = ([], Some (MemoryFile ''hello'')) \<and>
   map_of (index afterPrototypeWrite) ''__proto__'' \<noteq> None \<and>
   readFile afterPrototypeWrite ''__proto__'' = Inr ''hello'' \<and>
   fst (deleteEntry sampleEnv afterPrototypeWrite ''__proto__'') = Inr () \<and>
   map_of (index (snd (deleteEntry sampleEnv afterPrototypeWrite ''__proto__''))) ''__proto__'' = None \<and>
   readFile (snd (deleteEntry sampleEnv afterPrototypeWrite ''__proto__'')) ''__proto__'' = Inr ''hello''"
  by code_simp

subsection \<open>What \<open>searchFiles\<close> returns\<close>

text \<open>
  \<open>visibleFile root segs\<close>: the names \<open>segs\<close> lead from the root through the listed
  items of directories to a file, and none of them, the file's own name included, is
  skipped. \<open>pathString\<close> is
  the path that \<^verbatim>\<open>traverse\<close> builds for these names.
\<close>

fun visibleFile :: "children \<Rightarrow> string list \<Rightarrow> bool" where
  "visibleFile ch [] = False"
| "visibleFile ch [name] =
     (\<not> skipped name \<and>
      list_ex (\<lambda>(n, x). n = name \<and> (case x of MemoryFile c \<Rightarrow> True | MemoryDirectory sub \<Rightarrow> False))
        (fst ch))"
| "visibleFile ch (name # inner # rest) =
     (\<not> skipped name \<and>
      list_ex (\<lambda>(n, x). n = name \<and>
                 (case x of MemoryFile c \<Rightarrow> False
                  | MemoryDirectory sub \<Rightarrow> visibleFile sub (inner # rest))) (fst ch))"

definition pathString :: "string list \<Rightarrow> string" where
  "pathString segs = foldl childPath [] segs"

text \<open>A workspace with a build directory, a dot file and a dependency directory.\<close>

definition buildWorkspace :: system where
  "buildWorkspace =
     emptyMemory\<lparr>memoryRoot :=
       ([(''dist'', MemoryDirectory ([(''App.js'', MemoryFile ''x'')], None)),
         (''.env'', MemoryFile ''KEY=1''),
         (''node_modules'', MemoryDirectory ([(''app.js'', MemoryFile ''y'')], None)),
         (''src'', MemoryDirectory
            ([(''app.ts'', MemoryFile ''z''), (''notes.md'', MemoryFile ''app'')], None))],
        None)\<rparr>"

lemma visibleFile_Nil [simp]: "\<not> visibleFile ([], pr) segs"
proof (cases segs)
  case Nil
  then show ?thesis by simp
next
  case (Cons a r)
  then show ?thesis by (cases r) simp_all
qed

lemma visibleFile_nonempty: "visibleFile ch segs \<Longrightarrow> segs \<noteq> []"
  by auto

lemma visibleFile_Cons_file:
  "visibleFile ((name, MemoryFile c) # items, pr) segs
     = ((segs = [name] \<and> \<not> skipped name) \<or> visibleFile (items, pr) segs)"
proof (cases segs)
  case Nil
  then show ?thesis by simp
next
  case (Cons a r)
  then show ?thesis by (cases r) auto
qed

lemma visibleFile_Cons_dir:
  "visibleFile ((name, MemoryDirectory sub) # items, pr) segs
     = ((\<exists>rest. segs = name # rest \<and> \<not> skipped name \<and> visibleFile sub rest) \<or>
        visibleFile (items, pr) segs)"
proof (cases segs)
  case Nil
  then show ?thesis by simp
next
  case (Cons a r)
  then show ?thesis by (cases r) auto
qed

lemma collect_disj:
  "{f x | x. (A x \<or> B x) \<and> C x} = {f x | x. A x \<and> C x} \<union> {f x | x. B x \<and> C x}"
  by blast

lemma traverse_set:
  "set (traverse lq path ch) =
     {''[NAME] '' @ foldl childPath path segs | segs.
        visibleFile ch segs \<and> includesStr (toLowerCase (last segs)) lq}"
proof (induction lq path ch rule: traverse.induct)
  case (1 lq path pr)
  show ?case by simp
next
  case (2 lq path name c items pr)
  have head: "set (if skipped name then []
                   else if includesStr (toLowerCase name) lq then [''[NAME] '' @ childPath path name]
                   else []) =
      {''[NAME] '' @ foldl childPath path segs | segs.
         (segs = [name] \<and> \<not> skipped name) \<and> includesStr (toLowerCase (last segs)) lq}"
    by auto
  show ?case
    unfolding traverse.simps set_append head "2.IH" visibleFile_Cons_file collect_disj ..
next
  case (3 lq path name sub items pr)
  have inner: "set (if skipped name then [] else traverse lq (childPath path name) sub) =
      {''[NAME] '' @ foldl childPath path segs | segs.
         (\<exists>rest. segs = name # rest \<and> \<not> skipped name \<and> visibleFile sub rest) \<and>
         includesStr (toLowerCase (last segs)) lq}"
  proof (cases "skipped name")
    case True
    then show ?thesis by simp
  next
    case False
    have "{''[NAME] '' @ foldl childPath path segs | segs.
             (\<exists>rest. segs = name # rest \<and> \<not> skipped name \<and> visibleFile sub rest) \<and>
             includesStr (toLowerCase (last segs)) lq}
          = {''[NAME] '' @ foldl childPath (childPath path name) rest | rest.
             visibleFile sub rest \<and> includesStr (toLowerCase (last rest)) lq}"
      (is "?L = ?R")
    proof
      show "?L \<subseteq> ?R"
      proof
        fix x assume "x \<in> ?L"
        then obtain rest where x: "x = ''[NAME] '' @ foldl childPath path (name # rest)"
          and v: "visibleFile sub rest" and i: "includesStr (toLowerCase (last (name # rest))) lq"
          by blast
        from v have "rest \<noteq> []" by (rule visibleFile_nonempty)
        then have "last (name # rest) = last rest" by simp
        with x v i show "x \<in> ?R" by auto
      qed
    next
      show "?R \<subseteq> ?L"
      proof
        fix x assume "x \<in> ?R"
        then obtain rest where x: "x = ''[NAME] '' @ foldl childPath (childPath path name) rest"
          and v: "visibleFile sub rest" and i: "includesStr (toLowerCase (last rest)) lq"
          by blast
        from v have "rest \<noteq> []" by (rule visibleFile_nonempty)
        then have l: "last (name # rest) = last rest" by simp
        have "x = ''[NAME] '' @ foldl childPath path (name # rest)" using x by simp
        moreover have "includesStr (toLowerCase (last (name # rest))) lq" using i l by simp
        ultimately show "x \<in> ?L" using v False by blast
      qed
    qed
    then show ?thesis using False "3.IH"(1) by simp
  qed
  show ?case
    unfolding traverse.simps set_append inner "3.IH"(2) visibleFile_Cons_dir collect_disj ..
qed

text \<open>
  \<^bold>\<open>C9\<close> (as the code has it). \<open>searchFiles\<close> returns, each prefixed with \<open>[NAME] \<close>,
  exactly the paths of the files whose own name contains the query as a
  case-insensitive substring and that are reached from the root through names none of
  which, the file's own included, is \<open>node_modules\<close> or starts with a dot. Only the
  names of files are matched, never contents or directory names.
\<close>

theorem searchFiles_visible_names:
  "set (searchFiles w query) =
     (case getRootHandle w of
        None \<Rightarrow> {}
      | Some root \<Rightarrow>
          {''[NAME] '' @ pathString segs | segs.
             visibleFile root segs \<and> includesStr (toLowerCase (last segs)) (toLowerCase query)})"
  by (simp add: searchFiles_def pathString_def traverse_set split: option.splits)

theorem searchFiles_visible_names_witness:
  "visibleFile (memoryRoot buildWorkspace) [''src'', ''app.ts''] \<and>
   includesStr (toLowerCase ''app.ts'') (toLowerCase ''APP'') \<and>
   ''[NAME] src/app.ts'' \<in> set (searchFiles buildWorkspace ''APP'')"
proof -
  have 1: "visibleFile (memoryRoot buildWorkspace) [''src'', ''app.ts'']" by code_simp
  have 2: "includesStr (toLowerCase (last [''src'', ''app.ts''])) (toLowerCase ''APP'')" by code_simp
  have 3: "getRootHandle buildWorkspace = Some (memoryRoot buildWorkspace)" by code_simp
  have 4: "pathString [''src'', ''app.ts''] = ''src/app.ts''" by code_simp
  have "''[NAME] '' @ pathString [''src'', ''app.ts''] \<in> set (searchFiles buildWorkspace ''APP'')"
    unfolding searchFiles_visible_names 3 using 1 2 by auto
  then show ?thesis using 1 2 4 by simp
qed

text \<open>
  \<^bold>\<open>C9\<close> (as stated) fails: \<open>dist\<close> is on the skip list of the recursive lister, but
  \<open>searchFiles\<close> traverses it; the results carry the prefix \<open>[NAME] \<close>; and the file
  \<open>.env\<close>, whose name contains the query \<open>env\<close>, is not returned.
\<close>

theorem searchFiles_counterexample:
  "''dist'' \<in> set listerExcluded \<and>
   searchFiles buildWorkspace ''app'' = [''[NAME] dist/App.js'', ''[NAME] src/app.ts''] \<and>
   getMemoryEntry (memoryRoot buildWorkspace) ''.env'' = Some (MemoryFile ''KEY=1'') \<and>
   searchFiles buildWorkspace ''env'' = []"
  by code_simp

section \<open>ResponseJsonRecovery: \<open>extractJsonCandidates\<close>\<close>

text \<open>
  Source: \<^verbatim>\<open>src/unnamed/part_000\<close>, function \<^verbatim>\<open>extractJsonCandidates\<close>.

  \<^verbatim>\<open>extractJsonCandidates(text)\<close> scans the text once, index by index, with a bracket
  stack and a string state, and parses every slice at which the stack returns to empty.
  \<^verbatim>\<open>JSON.parse\<close> belongs to the platform: it is the parameter \<open>parse\<close>, which returns
  \<open>None\<close> where \<^verbatim>\<open>JSON.parse\<close> throws. The two nested \<^verbatim>\<open>try\<close> blocks are the two
  \<open>case\<close> distinctions of \<open>parseCandidate\<close>. The sentinel \<open>-1\<close> of \<^verbatim>\<open>startIndex\<close> is
  kept, so the start index is an \<open>int\<close>.
\<close>

definition backslash :: char where
  "backslash = CHR 0x5C"

definition dquote :: char where
  "dquote = CHR 0x22"

record 'v scan =
  candidates :: "'v list"
  stack :: "char list"
  startIndex :: int
  inString :: bool
  isEscaped :: bool

text \<open>\<^verbatim>\<open>text.substring(a, b)\<close> for \<open>a \<le> b\<close>.\<close>

definition substring :: "string \<Rightarrow> nat \<Rightarrow> nat \<Rightarrow> string" where
  "substring s a b = take (b - a) (drop a s)"

text \<open>\<^verbatim>\<open>jsonStr.replace(/(?:\r\n|\r|\n)/g, '\\n')\<close>: every line break becomes the two
  characters backslash and \<open>n\<close>.\<close>

fun sanitizeNewlines :: "string \<Rightarrow> string" where
  "sanitizeNewlines [] = []"
| "sanitizeNewlines [c] = (if c = CHR 0x0D \<or> c = CHR 0x0A then [backslash, CHR ''n''] else [c])"
| "sanitizeNewlines (c # d # cs) =
     (if c = CHR 0x0D \<and> d = CHR 0x0A then [backslash, CHR ''n''] @ sanitizeNewlines cs
      else if c = CHR 0x0D \<or> c = CHR 0x0A then [backslash, CHR ''n''] @ sanitizeNewlines (d # cs)
      else c # sanitizeNewlines (d # cs))"

definition parseCandidate :: "(string \<Rightarrow> 'v option) \<Rightarrow> string \<Rightarrow> 'v option" where
  "parseCandidate parse jsonStr =
     (case parse jsonStr of
        Some parsed \<Rightarrow> Some parsed
      | None \<Rightarrow>
          (case parse (sanitizeNewlines jsonStr) of
             Some parsed \<Rightarrow> Some parsed
           | None \<Rightarrow> None))"

text \<open>The body of the loop at index \<open>i\<close>. The stack grows at its end (\<^verbatim>\<open>push\<close>,
  \<^verbatim>\<open>pop\<close>, \<^verbatim>\<open>stack[stack.length - 1]\<close>).\<close>

definition scanStep :: "(string \<Rightarrow> 'v option) \<Rightarrow> string \<Rightarrow> nat \<Rightarrow> 'v scan \<Rightarrow> 'v scan" where
  "scanStep parse text i st =
     (let char = text ! i in
      if inString st then
        (if char = backslash \<and> \<not> isEscaped st then st\<lparr>isEscaped := True\<rparr>
         else if char = dquote \<and> \<not> isEscaped st then st\<lparr>inString := False\<rparr>
         else st\<lparr>isEscaped := False\<rparr>)
      else if char = dquote then st\<lparr>inString := True\<rparr>
      else if char = CHR ''{'' \<or> char = CHR ''['' then
        (let st1 = (if stack st = [] then st\<lparr>startIndex := int i\<rparr> else st)
         in st1\<lparr>stack := stack st1 @ [if char = CHR ''{'' then CHR ''}'' else CHR '']'']\<rparr>)
      else if char = CHR ''}'' \<or> char = CHR '']'' then
        (if stack st \<noteq> [] \<and> char = last (stack st) then
           (let st1 = st\<lparr>stack := butlast (stack st)\<rparr>
            in if stack st1 = [] \<and> startIndex st1 \<noteq> - 1 then
                 (let jsonStr = substring text (nat (startIndex st1)) (i + 1);
                      st2 = (case parseCandidate parse jsonStr of
                               Some parsed \<Rightarrow> st1\<lparr>candidates := candidates st1 @ [parsed]\<rparr>
                             | None \<Rightarrow> st1)
                  in st2\<lparr>startIndex := - 1\<rparr>)
               else st1)
         else st)
      else st)"

definition scanInit :: "'v scan" where
  "scanInit = \<lparr>candidates = [], stack = [], startIndex = - 1, inString = False, isEscaped = False\<rparr>"

text \<open>The state after the first \<open>n\<close> iterations, and the function itself.\<close>

definition scanTo :: "(string \<Rightarrow> 'v option) \<Rightarrow> string \<Rightarrow> nat \<Rightarrow> 'v scan" where
  "scanTo parse text n = fold (scanStep parse text) [0..<n] scanInit"





subsection \<open>A model of \<open>JSON.parse\<close>\<close>

text \<open>
  For the concrete inputs below, \<^verbatim>\<open>JSON.parse\<close> is modelled after the JSON grammar
  (ECMA-404): a recursive-descent parser over the characters, with fuel (twice the
  length of the input and two is enough, since every second call consumes a
  character). A value is represented by its syntax tree; number and string tokens are
  kept as written. \<open>None\<close> is the \<^verbatim>\<open>SyntaxError\<close>.
\<close>

datatype json =
  JNull
  | JBool bool
  | JNumber string
  | JString string
  | JArray "json list"
  | JObject "(string \<times> json) list"

definition jsonSpace :: "char \<Rightarrow> bool" where
  "jsonSpace c = (c = CHR '' '' \<or> c = CHR 0x09 \<or> c = CHR 0x0A \<or> c = CHR 0x0D)"

definition skipSpace :: "string \<Rightarrow> string" where
  "skipSpace cs = dropWhile jsonSpace cs"

definition isDigit :: "char \<Rightarrow> bool" where
  "isDigit c = ((48 :: nat) \<le> of_char c \<and> of_char c \<le> (57 :: nat))"

definition isHex :: "char \<Rightarrow> bool" where
  "isHex c = (isDigit c \<or> c \<in> set ''abcdefABCDEF'')"

text \<open>The characters of a string token after the opening quote: the token as written
  and the rest after the closing quote. Control characters must be escaped.\<close>

fun stringToken :: "string \<Rightarrow> string \<Rightarrow> (string \<times> string) option" where
  "stringToken [] acc = None"
| "stringToken [c] acc = (if c = dquote then Some (acc, []) else None)"
| "stringToken (c # d # cs) acc =
     (if c = dquote then Some (acc, d # cs)
      else if c = backslash then
        (if d \<in> set [dquote, backslash, CHR ''/'', CHR ''b'', CHR ''f'', CHR ''n'', CHR ''r'', CHR ''t'']
         then stringToken cs (acc @ [c, d])
         else if d = CHR ''u'' \<and> 4 \<le> length cs \<and> list_all isHex (take 4 cs)
         then stringToken (drop 4 cs) (acc @ [c, d] @ take 4 cs)
         else None)
      else if (of_char c :: nat) < 32 then None
      else stringToken (d # cs) (acc @ [c]))"

text \<open>A number token: \<^verbatim>\<open>-? (0 | [1-9][0-9]*) (. [0-9]+)? ([eE] [+-]? [0-9]+)?\<close>\<close>

definition numberToken :: "string \<Rightarrow> (string \<times> string) option" where
  "numberToken cs =
     (let (sign, r0) = (case cs of c # r \<Rightarrow> if c = CHR ''-'' then ([c], r) else ([], cs) | [] \<Rightarrow> ([], cs));
          intPart = takeWhile isDigit r0;
          r1 = dropWhile isDigit r0
      in if intPart = [] \<or> (1 < length intPart \<and> hd intPart = CHR ''0'') then None
         else
           let (frac, r2) =
                 (case r1 of
                    c # r \<Rightarrow> if c = CHR ''.'' then (Some (takeWhile isDigit r), dropWhile isDigit r) else (None, r1)
                  | [] \<Rightarrow> (None, r1))
           in if frac = Some [] then None
              else
                let (ex, r3) =
                      (case r2 of
                         c # r \<Rightarrow>
                           if c = CHR ''e'' \<or> c = CHR ''E'' then
                             (case r of
                                s # r' \<Rightarrow>
                                  if s = CHR ''+'' \<or> s = CHR ''-''
                                  then (Some (c # s # takeWhile isDigit r'), dropWhile isDigit r')
                                  else (Some (c # takeWhile isDigit r), dropWhile isDigit r)
                              | [] \<Rightarrow> (Some [c], []))
                           else (None, r2)
                       | [] \<Rightarrow> (None, r2))
                in if (case ex of None \<Rightarrow> False | Some t \<Rightarrow> t = [] \<or> \<not> isDigit (last t)) then None
                   else Some (sign @ intPart
                              @ (case frac of None \<Rightarrow> [] | Some f \<Rightarrow> CHR ''.'' # f)
                              @ (case ex of None \<Rightarrow> [] | Some t \<Rightarrow> t), r3))"

fun parseValue :: "nat \<Rightarrow> string \<Rightarrow> (json \<times> string) option"
  and parseElements :: "nat \<Rightarrow> string \<Rightarrow> json list \<Rightarrow> (json \<times> string) option"
  and parseMembers :: "nat \<Rightarrow> string \<Rightarrow> (string \<times> json) list \<Rightarrow> (json \<times> string) option" where
  "parseValue 0 cs = None"
| "parseValue (Suc n) cs =
     (case cs of
        [] \<Rightarrow> None
      | c # r \<Rightarrow>
          if c = CHR ''{'' then
            (case skipSpace r of
               [] \<Rightarrow> None
             | d # r' \<Rightarrow> if d = CHR ''}'' then Some (JObject [], r') else parseMembers n (d # r') [])
          else if c = CHR ''['' then
            (case skipSpace r of
               [] \<Rightarrow> None
             | d # r' \<Rightarrow> if d = CHR '']'' then Some (JArray [], r') else parseElements n (d # r') [])
          else if c = dquote then
            (case stringToken r [] of None \<Rightarrow> None | Some (s, r') \<Rightarrow> Some (JString s, r'))
          else if take 4 cs = ''true'' then Some (JBool True, drop 4 cs)
          else if take 5 cs = ''false'' then Some (JBool False, drop 5 cs)
          else if take 4 cs = ''null'' then Some (JNull, drop 4 cs)
          else (case numberToken cs of None \<Rightarrow> None | Some (t, r') \<Rightarrow> Some (JNumber t, r')))"
| "parseElements 0 cs acc = None"
| "parseElements (Suc n) cs acc =
     (case parseValue n cs of
        None \<Rightarrow> None
      | Some (v, r) \<Rightarrow>
          (case skipSpace r of
             [] \<Rightarrow> None
           | d # r' \<Rightarrow>
               if d = CHR '','' then parseElements n (skipSpace r') (acc @ [v])
               else if d = CHR '']'' then Some (JArray (acc @ [v]), r')
               else None))"
| "parseMembers 0 cs acc = None"
| "parseMembers (Suc n) cs acc =
     (case cs of
        [] \<Rightarrow> None
      | c # r \<Rightarrow>
          if c \<noteq> dquote then None
          else
            (case stringToken r [] of
               None \<Rightarrow> None
             | Some (k, r1) \<Rightarrow>
                 (case skipSpace r1 of
                    [] \<Rightarrow> None
                  | colon # r2 \<Rightarrow>
                      if colon \<noteq> CHR '':'' then None
                      else
                        (case parseValue n (skipSpace r2) of
                           None \<Rightarrow> None
                         | Some (v, r3) \<Rightarrow>
                             (case skipSpace r3 of
                                [] \<Rightarrow> None
                              | d # r4 \<Rightarrow>
                                  if d = CHR '','' then parseMembers n (skipSpace r4) (acc @ [(k, v)])
                                  else if d = CHR ''}'' then Some (JObject (acc @ [(k, v)]), r4)
                                  else None)))))"









subsection \<open>The scan, step by step\<close>

lemma scanTo_0 [simp]: "scanTo parse text 0 = scanInit"
  by (simp add: scanTo_def)


lemma parseCandidate_Some [simp]: "parseCandidate (\<lambda>x. Some x) s = Some s"
  by (simp add: parseCandidate_def)
















subsection \<open>Text after a text that leaves the scanner between fragments\<close>













subsection \<open>A fragment that the scanner finds whole\<close>









end
